theory Spec2Isabelle
  imports Main "HOL-Library.Word" "HOL-Library.Sublist"
begin

section \<open>Error codes (error.hpp, pixie\_error.cpp)\<close>

text \<open>
  The enumeration \<^verbatim>\<open>enum struct code\<close> as error.hpp declares it, every enumerator in
  the order of its declaration; \<^verbatim>\<open>last\<close> (here \<open>last'\<close>) closes the list.
  pixie\_error.cpp itself includes pixie\_error.hpp, which is not among the sources.
\<close>

datatype code =
    success
  | crate_already_open | crate_not_ready | crate_invalid_param
  | module_number_invalid | module_total_invalid | module_already_open
  | module_close_failure | module_offline | module_info_failure
  | module_invalid_operation | module_invalid_firmware | module_initialize_failure
  | module_invalid_param | module_invalid_var | module_param_disabled
  | module_param_readonly | module_param_writeonly | module_task_timeout
  | module_invalid_slot | module_not_found | module_test_invalid
  | channel_number_invalid | channel_invalid_param | channel_invalid_var
  | channel_invalid_index | channel_param_disabled | channel_param_readonly
  | channel_param_writeonly
  | device_load_failure | device_boot_failure | device_initialize_failure
  | device_copy_failure | device_image_failure | device_hw_failure
  | device_dma_failure | device_dma_busy | device_fifo_failure
  | device_eeprom_failure | device_eeprom_bad_type | device_eeprom_not_found
  | config_invalid_param | config_param_not_found | config_json_error
  | file_not_found | file_open_failure | file_read_failure
  | file_size_invalid | file_create_failure
  | no_memory | slot_map_invalid | invalid_value | not_supported
  | buffer_pool_empty | buffer_pool_not_empty | buffer_pool_busy
  | buffer_pool_not_enough
  | unknown_error | internal_failure | bad_allocation | bad_error_code
  | last'



text \<open>
  What the code can throw or run into: \<^verbatim>\<open>xia::pixie::error::error\<close> with its code and
  message, a \<^verbatim>\<open>std::runtime_error\<close> (also the legacy \<^verbatim>\<open>crate::error\<close>, which derives
  from it) with its message, \<^verbatim>\<open>std::out_of_range\<close> of \<^verbatim>\<open>std::map::at\<close>, and behaviour
  the language leaves undefined (an index outside an array, \<^verbatim>\<open>front()\<close> of an empty
  container).
\<close>

datatype failure =
    Error code string
  | Runtime_error string
  | Out_of_range
  | Undefined_behaviour









section \<open>Buffers, the pool and the queue (pixie\_buffer.cpp)\<close>

text \<open>
  Modelled from the spec: pixie\_buffer.hpp is not among the sources. A buffer is a
  \<^verbatim>\<open>std::vector\<close> of 32-bit words: its elements and its capacity (the vector keeps
  \<open>size \<le> capacity\<close>). A handle is a shared pointer to a buffer. For the pool and for
  the queue's push, pop, copy and flush, which touch one buffer at a time, a handle is
  the buffer itself here, and dropping the last handle of a pool buffer is the call of
  \<^verbatim>\<open>pool::release\<close>; \<^verbatim>\<open>compact\<close> is modelled over the handles and the buffers they
  point to.
\<close>

record buffer =
  data :: "32 word list"
  capacity :: nat

definition buffer_size :: "buffer \<Rightarrow> nat" where
  "buffer_size b = length (data b)"

definition buffer_new :: buffer where
  "buffer_new = \<lparr>data = [], capacity = 0\<rparr>"

definition buffer_reserve :: "nat \<Rightarrow> buffer \<Rightarrow> buffer" where
  "buffer_reserve n b = (if capacity b < n then b\<lparr>capacity := n\<rparr> else b)"

definition buffer_clear :: "buffer \<Rightarrow> buffer" where
  "buffer_clear b = b\<lparr>data := []\<rparr>"

subsection \<open>The pool\<close>

text \<open>
  The pool: the number of buffers, their size, the count of available buffers and the
  free list. The count is only decremented behind the test \<^verbatim>\<open>empty()\<close>, so it is a
  natural number here.
\<close>

record pool =
  number :: nat
  size' :: nat
  count' :: nat
  buffers :: "buffer list"

definition pool_init :: pool where
  "pool_init = \<lparr>number = 0, size' = 0, count' = 0, buffers = []\<rparr>"

text \<open>
  Modelled from the spec: \<^verbatim>\<open>pool::empty()\<close> is declared in pixie\_buffer.hpp; the pool is
  exhausted when its count of available buffers is 0.
\<close>

definition pool_empty :: "pool \<Rightarrow> bool" where
  "pool_empty p \<longleftrightarrow> count' p = 0"

text \<open>The loop of \<^verbatim>\<open>pool::create\<close>: \<open>n\<close> times a new buffer of the reserved size, at the front.\<close>

fun create_buffers :: "nat \<Rightarrow> nat \<Rightarrow> buffer list \<Rightarrow> buffer list" where
  "create_buffers 0 sz bufs = bufs"
| "create_buffers (Suc n) sz bufs = create_buffers n sz (buffer_reserve sz buffer_new # bufs)"

definition pool_create :: "nat \<Rightarrow> nat \<Rightarrow> pool \<Rightarrow> failure + pool" where
  "pool_create number' size_arg p =
     (if number p \<noteq> 0 then Inl (Error buffer_pool_not_empty ''pool is already created'')
      else Inr (p\<lparr>number := number', size' := size_arg,
                  buffers := create_buffers number' size_arg (buffers p),
                  count' := number'\<rparr>))"

text \<open>\<^verbatim>\<open>pool::request\<close>; \<^verbatim>\<open>front()\<close> of an empty list is undefined.\<close>

definition pool_request :: "pool \<Rightarrow> failure + (buffer \<times> pool)" where
  "pool_request p =
     (if pool_empty p then Inl (Error buffer_pool_empty ''no buffers avaliable'')
      else case buffers p of
             [] \<Rightarrow> Inl Undefined_behaviour
           | buf # rest \<Rightarrow> Inr (buf, p\<lparr>count' := count' p - 1, buffers := rest\<rparr>))"

definition pool_release :: "buffer \<Rightarrow> pool \<Rightarrow> pool" where
  "pool_release buf p = p\<lparr>buffers := buffer_clear buf # buffers p, count' := count' p + 1\<rparr>"

text \<open>\<open>k\<close> requests in a row, no release between them: the handles, first one first.\<close>

fun pool_requests :: "nat \<Rightarrow> pool \<Rightarrow> failure + (buffer list \<times> pool)" where
  "pool_requests 0 p = Inr ([], p)"
| "pool_requests (Suc k) p =
     (case pool_request p of
        Inl e \<Rightarrow> Inl e
      | Inr (h, p') \<Rightarrow>
          (case pool_requests k p' of Inl e \<Rightarrow> Inl e | Inr (hs, p'') \<Rightarrow> Inr (h # hs, p'')))"

subsection \<open>The queue\<close>

text \<open>
  The queue: the handles in their order (a \<^verbatim>\<open>std::deque\<close>), the atomic word total
  \<^verbatim>\<open>size_\<close> and the atomic buffer count \<^verbatim>\<open>count_\<close>, both of type \<^verbatim>\<open>size_t\<close> and so
  64-bit words that wrap around.
\<close>

record queue =
  buffers :: "buffer list"
  size' :: "64 word"
  count' :: "64 word"

definition queue_init :: queue where
  "queue_init = \<lparr>buffers = [], size' = 0, count' = 0\<rparr>"

text \<open>
  Modelled from the spec: the accessors \<^verbatim>\<open>queue::size()\<close> and \<^verbatim>\<open>queue::count()\<close> are
  declared in pixie\_buffer.hpp; they load the two atomic fields.
\<close>

definition queue_size :: "queue \<Rightarrow> 64 word" where
  "queue_size q = size' q"

definition queue_count :: "queue \<Rightarrow> 64 word" where
  "queue_count q = count' q"

definition push :: "buffer \<Rightarrow> queue \<Rightarrow> queue" where
  "push buf q =
     (if buffer_size buf > 0
      then q\<lparr>buffers := buffers q @ [buf],
             size' := size' q + of_nat (buffer_size buf),
             count' := count' q + 1\<rparr>
      else q)"

text \<open>\<^verbatim>\<open>queue::pop\<close>; \<^verbatim>\<open>front()\<close> of an empty deque is undefined.\<close>

definition pop :: "queue \<Rightarrow> failure + (buffer \<times> queue)" where
  "pop q =
     (case buffers q of
        [] \<Rightarrow> Inl Undefined_behaviour
      | buf # rest \<Rightarrow>
          Inr (buf, q\<lparr>buffers := rest,
                       size' := size' q - of_nat (buffer_size buf),
                       count' := count' q - 1\<rparr>))"

text \<open>
  \<^verbatim>\<open>std::memcpy(to, src, n)\<close> with \<open>n\<close> counted in bytes. The destination is the array of
  words that starts where the caller's pointer points, \<open>to\<close> is the offset of the moving
  pointer in it, in words. \<open>n div 4\<close> words are copied whole; of the next word the
  \<open>n mod 4\<close> bytes at the lowest addresses are copied, which on the little-endian hosts
  the SDK runs on are its low-order bytes. Reading or writing outside either array is
  undefined: \<open>None\<close>.
\<close>

definition merge_bytes :: "nat \<Rightarrow> 32 word \<Rightarrow> 32 word \<Rightarrow> 32 word" where
  "merge_bytes r s d = or (and s (mask (8 * r))) (and d (not (mask (8 * r))))"

definition memcpy :: "32 word list \<Rightarrow> nat \<Rightarrow> 32 word list \<Rightarrow> nat \<Rightarrow> 32 word list option" where
  "memcpy mem to src n =
     (let whole = n div 4;
          r = n mod 4;
          touched = whole + (if r > 0 then 1 else 0)
      in if to + touched > length mem \<or> touched > length src then None
         else let mem1 = take to mem @ take whole src @ drop (to + whole) mem
              in Some (if r = 0 then mem1
                       else mem1[to + whole := merge_bytes r (src ! whole) (mem ! (to + whole))]))"

text \<open>
  \<^verbatim>\<open>std::move(v.begin() + k, v.end(), v.begin())\<close> on the elements of a vector: the
  elements from \<open>k\<close> on are copied to the front, the last \<open>k\<close> places keep what they held.
\<close>

definition move_to_front :: "nat \<Rightarrow> 'a list \<Rightarrow> 'a list" where
  "move_to_front k xs = drop k xs @ drop (length xs - k) xs"

definition buffer_resize :: "nat \<Rightarrow> buffer \<Rightarrow> buffer" where
  "buffer_resize n b =
     b\<lparr>data := take n (data b) @ replicate (n - length (data b)) 0,
       capacity := max (capacity b) n\<rparr>"

text \<open>
  The variables of \<^verbatim>\<open>copy_unprotected\<close>: the destination and the pointer \<^verbatim>\<open>to\<close> into it,
  \<^verbatim>\<open>to_move\<close>, the buffers the iterator \<^verbatim>\<open>from_bi\<close> has passed (as the loop left them)
  and the two atomic fields of the queue.
\<close>

record copy_vars =
  mem :: "32 word list"
  to_v :: nat
  to_move_v :: nat
  passed :: "buffer list"
  size_v :: "64 word"
  count_v :: "64 word"

text \<open>
  The loop of \<^verbatim>\<open>copy_unprotected\<close> over the buffers from \<^verbatim>\<open>from_bi\<close> on. It returns the
  buffers from \<^verbatim>\<open>from_bi\<close> on when the loop ends and the variables. The second
  \<^verbatim>\<open>memcpy\<close> is given \<^verbatim>\<open>to_move\<close> as its byte count, and that branch sets \<^verbatim>\<open>to_move\<close>
  to 0 before it subtracts \<^verbatim>\<open>to_move\<close> from \<^verbatim>\<open>size_\<close>; \<^verbatim>\<open>from_bi++\<close> follows both branches.
\<close>

fun copy_loop :: "buffer list \<Rightarrow> copy_vars \<Rightarrow> failure option \<times> buffer list \<times> copy_vars" where
  "copy_loop [] v = (None, [], v)"
| "copy_loop (from' # rest) v =
     (if to_move_v v > 0 then
        (if to_move_v v \<ge> buffer_size from' then
           (case memcpy (mem v) (to_v v) (data from') (buffer_size from' * 4) of
              None \<Rightarrow> (Some Undefined_behaviour, from' # rest, v)
            | Some m \<Rightarrow>
                copy_loop rest
                  (v\<lparr>mem := m,
                     to_v := to_v v + buffer_size from',
                     to_move_v := to_move_v v - buffer_size from',
                     size_v := size_v v - of_nat (buffer_size from'),
                     count_v := count_v v - 1,
                     passed := passed v @ [buffer_clear from']\<rparr>))
         else
           (case memcpy (mem v) (to_v v) (data from') (to_move_v v) of
              None \<Rightarrow> (Some Undefined_behaviour, from' # rest, v)
            | Some m \<Rightarrow>
                let from1 = from'\<lparr>data := move_to_front (to_move_v v) (data from')\<rparr>;
                    from2 = buffer_resize (buffer_size from1 - to_move_v v) from1;
                    v1 = v\<lparr>mem := m\<rparr>;
                    v2 = v1\<lparr>to_v := to_v v1 + buffer_size from2\<rparr>;
                    v3 = v2\<lparr>to_move_v := 0\<rparr>;
                    v4 = v3\<lparr>size_v := size_v v3 - of_nat (to_move_v v3)\<rparr>
                in copy_loop rest (v4\<lparr>passed := passed v4 @ [from2]\<rparr>)))
      else (None, from' # rest, v))"

text \<open>
  \<^verbatim>\<open>copy_unprotected(to, count)\<close>: what the call throws or, when it returns, the
  destination and the buffers it erased (as it left them), and the queue after the call.
  The exception is thrown before anything is changed. The final \<^verbatim>\<open>erase\<close> drops every
  buffer the iterator has passed.
\<close>

definition copy_unprotected ::
  "32 word list \<Rightarrow> 64 word \<Rightarrow> queue \<Rightarrow> (failure + 32 word list \<times> buffer list) \<times> queue" where
  "copy_unprotected dst count q =
     (if count > size' q
      then (Inl (Error buffer_pool_not_enough ''not enough data in queue''), q)
      else case copy_loop (buffers q)
                  \<lparr>mem = dst, to_v = 0, to_move_v = unat count, passed = [],
                   size_v = size' q, count_v = count' q\<rparr> of
             (err, rest, v) \<Rightarrow>
               let q' = q\<lparr>buffers := rest, size' := size_v v, count' := count_v v\<rparr>
               in case err of
                    Some e \<Rightarrow> (Inl e, q')
                  | None \<Rightarrow> (Inr (mem v, passed v), q'))"

text \<open>\<^verbatim>\<open>queue::copy(buffer_value_ptr to, const size_t count)\<close> takes the lock and calls it.\<close>

definition copy ::
  "32 word list \<Rightarrow> 64 word \<Rightarrow> queue \<Rightarrow> (failure + 32 word list \<times> buffer list) \<times> queue" where
  "copy dst count q = copy_unprotected dst count q"

definition flush :: "queue \<Rightarrow> queue" where
  "flush q = q\<lparr>buffers := []\<rparr>"

text \<open>The invariant of the spec: the two counters agree with the handles held.\<close>

definition queue_invariant :: "queue \<Rightarrow> bool" where
  "queue_invariant q \<longleftrightarrow>
     queue_size q = of_nat (sum_list (map buffer_size (buffers q)))
     \<and> queue_count q = of_nat (length (buffers q))"

text \<open>
  \<^verbatim>\<open>queue::compact\<close>. A handle is a shared pointer, \<^verbatim>\<open>push\<close> takes any handle, and
  \<^verbatim>\<open>compact\<close> writes to one buffer of the queue while it reads another: what it does
  depends on whether two handles of the queue point to the same buffer. So for
  \<^verbatim>\<open>compact\<close> the queue is its deque of handles, each the address of a buffer, together
  with the buffers at these addresses, and the two atomic fields.
\<close>

type_synonym handle = nat

record shared_queue =
  handles :: "handle list"
  heap :: "handle \<Rightarrow> buffer"
  size_q :: "64 word"
  count_q :: "64 word"

text \<open>A heap of empty buffers, to build concrete heaps from by updates.\<close>

definition heap_init :: "handle \<Rightarrow> buffer" where
  "heap_init a = buffer_new"

text \<open>
  \<^verbatim>\<open>v.insert(v.end(), first, last)\<close>: a vector that has to grow takes at least the
  capacity it needs (how much more is the implementation's choice).
\<close>

definition buffer_append :: "32 word list \<Rightarrow> buffer \<Rightarrow> buffer" where
  "buffer_append ws b =
     b\<lparr>data := data b @ ws, capacity := max (capacity b) (length (data b @ ws))\<rparr>"

definition buffer_erase_front :: "nat \<Rightarrow> buffer \<Rightarrow> buffer" where
  "buffer_erase_front k b = b\<lparr>data := drop k (data b)\<rparr>"

text \<open>Subtraction of \<^verbatim>\<open>size_t\<close> values, which wraps around below 0.\<close>

definition size_t_minus :: "nat \<Rightarrow> nat \<Rightarrow> nat" where
  "size_t_minus a b = (if b \<le> a then a - b else 2 ^ 64 - (b - a))"

text \<open>
  The inner loop moves words from the buffers after \<^verbatim>\<open>to\<close> into the spare capacity of
  \<^verbatim>\<open>to\<close>, in the order of the source: insert at the end of \<^verbatim>\<open>to\<close>, then read the size of
  \<^verbatim>\<open>from\<close> again for \<^verbatim>\<open>to_move\<close>, then clear or erase in \<^verbatim>\<open>from\<close>. It returns the number of
  buffers it emptied (each one decrements \<^verbatim>\<open>count_\<close> and joins the range to erase), the
  handles after \<^verbatim>\<open>to\<close> without the emptied ones, and the heap. Between different
  buffers the words inserted never exceed the spare capacity, so the vector does not
  reallocate. When \<^verbatim>\<open>from\<close> and \<^verbatim>\<open>to\<close> are the same buffer the insert copies the
  buffer's own words to its end (the C++ standard does not define an insert of a
  vector's own range; this is what the copy in place gives).
\<close>

fun compact_move ::
  "nat \<Rightarrow> handle \<Rightarrow> handle list \<Rightarrow> (handle \<Rightarrow> buffer) \<Rightarrow> nat \<times> handle list \<times> (handle \<Rightarrow> buffer)" where
  "compact_move to_move to [] h = (0, [], h)"
| "compact_move to_move to (from' # rest) h =
     (if to_move > 0 then
        (if to_move \<ge> buffer_size (h from') then
           let h1 = h(to := buffer_append (data (h from')) (h to));
               to_move1 = size_t_minus to_move (buffer_size (h1 from'));
               h2 = h1(from' := buffer_clear (h1 from'))
           in (case compact_move to_move1 to rest h2 of
                 (n, rest', h') \<Rightarrow> (Suc n, rest', h'))
         else
           let h1 = h(to := buffer_append (take to_move (data (h from'))) (h to));
               h2 = h1(from' := buffer_erase_front to_move (h1 from'))
           in (0, from' # rest, h2))
      else (0, from' # rest, h))"

lemma compact_move_length:
  "compact_move to_move to post h = (n, post', h') \<Longrightarrow> length post' + n = length post"
proof (induction post arbitrary: to_move h n post' h')
  case Nil
  then show ?case by simp
next
  case (Cons from' rest)
  then show ?case
    by (auto simp: Let_def split: if_splits prod.splits)
qed

text \<open>
  One pass of the middle loop, \<^verbatim>\<open>to_bi\<close> running over the handles: the handles before
  \<^verbatim>\<open>to_bi\<close> and those from \<^verbatim>\<open>to_bi\<close> on. The pass stops after the first \<^verbatim>\<open>to\<close> that
  emptied a buffer, erases the emptied buffers and asks for a rerun; it returns the
  rerun flag, the number of buffers erased, the handles and the heap. A vector keeps
  \<open>size \<le> capacity\<close>, so the unsigned difference is the spare capacity.
\<close>

function compact_pass ::
  "handle list \<Rightarrow> handle list \<Rightarrow> (handle \<Rightarrow> buffer)
     \<Rightarrow> bool \<times> nat \<times> handle list \<times> (handle \<Rightarrow> buffer)" where
  "compact_pass pre [] h = (False, 0, pre, h)"
| "compact_pass pre (to # post) h =
     (if capacity (h to) - buffer_size (h to) > 0 then
        (case compact_move (capacity (h to) - buffer_size (h to)) to post h of
           (n, post', h') \<Rightarrow>
             if n > 0 then (True, n, pre @ to # post', h')
             else compact_pass (pre @ [to]) post' h')
      else compact_pass (pre @ [to]) post h)"
  by pat_completeness auto
termination
proof (relation "measure (\<lambda>(pre, todo, h). length todo)")
  show "wf (measure (\<lambda>(pre, todo, h). length todo))" by simp
next
  fix pre :: "handle list" and to post h x2 n post' h'
  assume "(n, x2) = compact_move (capacity (h to) - buffer_size (h to)) to post h"
    and "(post', h') = x2" and "\<not> 0 < n"
  then have "compact_move (capacity (h to) - buffer_size (h to)) to post h = (n, post', h')"
    and "n = 0" by simp_all
  from compact_move_length [OF this(1)] this(2)
  show "((pre @ [to], post', h'), (pre, to # post, h))
          \<in> measure (\<lambda>(pre, todo, h). length todo)"
    by simp
next
  fix pre :: "handle list" and to post and h :: "handle \<Rightarrow> buffer"
  show "((pre @ [to], post, h), (pre, to # post, h))
          \<in> measure (\<lambda>(pre, todo, h). length todo)"
    by simp
qed

lemma compact_pass_length:
  "compact_pass pre todo h = (rerun, n, hs, h') \<Longrightarrow>
   length hs + n = length pre + length todo \<and> (rerun \<longrightarrow> 0 < n)"
proof (induction pre todo h arbitrary: rerun n hs h' rule: compact_pass.induct)
  case (1 pre h)
  then show ?case by simp
next
  case (2 pre to post h)
  show ?case
  proof (cases "capacity (h to) - buffer_size (h to) > 0")
    case False
    with 2 show ?thesis by simp
  next
    case True
    obtain k post' h1 where
      mv: "compact_move (capacity (h to) - buffer_size (h to)) to post h = (k, post', h1)"
      by (cases "compact_move (capacity (h to) - buffer_size (h to)) to post h") auto
    from compact_move_length [OF mv] have len: "length post' + k = length post" .
    show ?thesis
    proof (cases "k > 0")
      case kpos: True
      with True mv "2.prems" len show ?thesis by auto
    next
      case k0: False
      with True mv "2.prems" have "compact_pass (pre @ [to]) post' h1 = (rerun, n, hs, h')"
        by simp
      from "2.IH"(1) [OF True mv [symmetric] refl k0 this] len k0
      show ?thesis by simp
    qed
  qed
qed

text \<open>
  The outer loop: passes are rerun as long as one erased a buffer. \<^verbatim>\<open>size_\<close> is not
  written anywhere in \<^verbatim>\<open>compact\<close>.
\<close>

function compact :: "shared_queue \<Rightarrow> shared_queue" where
  "compact q =
     (case compact_pass [] (handles q) (heap q) of
        (rerun, n, hs, h') \<Rightarrow>
          let q' = q\<lparr>handles := hs, heap := h', count_q := count_q q - of_nat n\<rparr>
          in if rerun then compact q' else q')"
  by pat_completeness auto
termination
proof (relation "measure (\<lambda>q. length (handles q))")
  show "wf (measure (\<lambda>q. length (handles q)))" by simp
next
  fix q :: shared_queue and rerun y n z hs h' q'
  assume "(rerun, y) = compact_pass [] (handles q) (heap q)" and "(n, z) = y"
    and "(hs, h') = z"
    and q': "q' = q\<lparr>handles := hs, heap := h', count_q := count_q q - of_nat n\<rparr>" and rerun
  then have "compact_pass [] (handles q) (heap q) = (rerun, n, hs, h')" by simp
  from compact_pass_length [OF this] \<open>rerun\<close> q'
  show "(q', q) \<in> measure (\<lambda>q. length (handles q))" by simp
qed

declare compact.simps [simp del]

text \<open>A buffer with no spare capacity.\<close>

definition full :: "buffer \<Rightarrow> bool" where
  "full b \<longleftrightarrow> capacity b - buffer_size b = 0"

section \<open>Decimal output\<close>

text \<open>\<^verbatim>\<open>std::to_string\<close> and \<^verbatim>\<open>operator<<\<close> on integers: decimal digits, a minus sign first.\<close>

fun nat_to_string :: "nat \<Rightarrow> string" where
  "nat_to_string n =
     (if n < 10 then [''0123456789'' ! n]
      else nat_to_string (n div 10) @ [''0123456789'' ! (n mod 10)])"

declare nat_to_string.simps [simp del]

definition to_string :: "int \<Rightarrow> string" where
  "to_string i = (if i < 0 then CHR ''-'' # nat_to_string (nat (- i)) else nat_to_string (nat i))"

section \<open>The backplane (backplane.cpp)\<close>

text \<open>
  Modelled from the spec: module.hpp is not among the sources. The backplane reads one
  field of a module, \<^verbatim>\<open>number\<close>, the module's number in the crate; the spec numbers the
  modules of a crate \<open>0..N-1\<close>, so the number is a natural number here.
\<close>

record module =
  number :: nat

text \<open>
  Modelled from the spec: backplane.hpp is not among the sources. A role holds an atomic
  integer \<^verbatim>\<open>leader\<close> and a label; the sentinel \<^verbatim>\<open>released\<close> is -1 (the constructor in
  backplane.cpp starts every role with \<^verbatim>\<open>leader(-1)\<close>).
\<close>

record role =
  leader :: int
  label :: string

definition released :: int where
  "released = - 1"

definition role_init :: "string \<Rightarrow> role" where
  "role_init label' = \<lparr>leader = - 1, label = label'\<rparr>"

text \<open>
  \<^verbatim>\<open>std::atomic<int>::compare_exchange_strong(expected, desired)\<close> on the stored value:
  whether the exchange happened, and the value stored afterwards.
\<close>

definition compare_exchange_strong :: "int \<Rightarrow> int \<Rightarrow> int \<Rightarrow> bool \<times> int" where
  "compare_exchange_strong stored expected desired =
     (if stored = expected then (True, desired) else (False, stored))"

text \<open>The two operations return their flag and the role after the call (logging left out).\<close>

definition request :: "module \<Rightarrow> role \<Rightarrow> bool \<times> role" where
  "request mod' r =
     (let expected = released;
          desired = int (number mod');
          (requested, l) = compare_exchange_strong (leader r) expected desired
      in (requested, r\<lparr>leader := l\<rparr>))"

definition release :: "module \<Rightarrow> role \<Rightarrow> bool \<times> role" where
  "release mod' r =
     (let expected = int (number mod');
          desired = released;
          (released', l) = compare_exchange_strong (leader r) expected desired
      in (released', r\<lparr>leader := l\<rparr>))"

text \<open>
  The backplane: three roles, the counter \<^verbatim>\<open>sync_waits\<close> and the flags \<^verbatim>\<open>sync_waiters\<close>,
  one per slot. The number of slots (\<^verbatim>\<open>hw::max_slots\<close>, not among the sources) is the
  parameter of the constructor; every flag starts false.
\<close>

record backplane =
  wired_or_triggers_pullup :: role
  run :: role
  director :: role
  sync_waits :: int
  sync_waiters :: "bool list"

definition backplane_init :: "nat \<Rightarrow> backplane" where
  "backplane_init max_slots =
     \<lparr>wired_or_triggers_pullup = role_init ''wired-or-triggers'',
      run = role_init ''run'',
      director = role_init ''director'',
      sync_waits = 0,
      sync_waiters = replicate max_slots False\<rparr>"

text \<open>
  \<^verbatim>\<open>sync_wait\<close>. Indexing \<^verbatim>\<open>sync_waiters\<close> outside its size is undefined in C++ and is a
  result of its own here. In the range check \<^verbatim>\<open>sw < 0\<close> is tested first, so the
  comparison with the unsigned size only ever sees a counter that is not negative.
\<close>

definition sync_wait :: "module \<Rightarrow> 32 word \<Rightarrow> backplane \<Rightarrow> failure + backplane" where
  "sync_wait mod' synch_wait bp =
     (let synch_wait_active = (synch_wait = 1) in
      if \<not> number mod' < length (sync_waiters bp) then Inl Undefined_behaviour
      else if synch_wait_active \<noteq> sync_waiters bp ! number mod' then
        let bp1 = (if synch_wait_active
                   then bp\<lparr>sync_waits := sync_waits bp + 1\<rparr>
                   else bp\<lparr>sync_waits := sync_waits bp - 1\<rparr>);
            bp2 = bp1\<lparr>sync_waiters := (sync_waiters bp1)[number mod' := synch_wait_active]\<rparr>;
            sw = sync_waits bp2
        in if sw < 0 \<or> sw > int (length (sync_waiters bp2))
           then Inl (Error internal_failure
                      (''module: '' @ to_string (int (number mod')) @
                       '': invalid backplane sync_wait value: '' @ to_string sw))
           else Inr bp2
      else Inr bp)"

definition sync_wait_valid :: "backplane \<Rightarrow> failure + unit" where
  "sync_wait_valid bp =
     (let waits = sync_waits bp in
      if waits \<noteq> 0 \<and> waits \<noteq> int (length (sync_waiters bp))
      then Inl (Error module_invalid_operation
                 ''sync wait mode enabled and not all modules in the sync wait state'')
      else Inr ())"

text \<open>A sequence of \<^verbatim>\<open>sync_wait\<close> calls, stopping at the first that does not return.\<close>

fun sync_wait_calls :: "(module \<times> 32 word) list \<Rightarrow> backplane \<Rightarrow> failure + backplane" where
  "sync_wait_calls [] bp = Inr bp"
| "sync_wait_calls ((mod', v) # calls) bp =
     (case sync_wait mod' v bp of Inl e \<Rightarrow> Inl e | Inr bp' \<Rightarrow> sync_wait_calls calls bp')"

text \<open>The invariant of the spec: the counter is the number of flags set, within range.\<close>

definition popcount :: "bool list \<Rightarrow> nat" where
  "popcount flags = length (filter (\<lambda>b. b) flags)"

definition sync_invariant :: "backplane \<Rightarrow> bool" where
  "sync_invariant bp \<longleftrightarrow>
     sync_waits bp = int (popcount (sync_waiters bp))
     \<and> 0 \<le> sync_waits bp \<and> sync_waits bp \<le> int (length (sync_waiters bp))"

section \<open>The legacy crate (pixie\_crate.cpp)\<close>

text \<open>
  Modelled from the spec: pixie\_crate.hpp and the module header it includes are not
  among the sources. The crate uses one field of a module, its PCI \<^verbatim>\<open>device\<close>, and has
  the number of modules it was built with and the modules found. The functions
  \<^verbatim>\<open>module::pci_find_module\<close> (which fills in the device and tells whether one was
  found), \<^verbatim>\<open>module::pci_bus\<close> and \<^verbatim>\<open>module::pci_slot\<close> and the default-constructed
  module are parameters.
\<close>

record 'dev crate_module =
  device :: 'dev

record 'dev crate =
  num_modules :: nat
  modules :: "'dev crate_module list"

record 'dev pci =
  module_new :: "'dev crate_module"
  pci_find_module :: "nat \<Rightarrow> 'dev \<Rightarrow> bool \<times> 'dev"
  pci_bus :: "'dev \<Rightarrow> int"
  pci_slot :: "'dev \<Rightarrow> int"

definition crate_new :: "nat \<Rightarrow> failure + 'dev crate" where
  "crate_new num_modules' =
     (if num_modules' \<noteq> 0 then Inl (Runtime_error ''crate already initialised'')
      else Inr \<lparr>num_modules = num_modules', modules = []\<rparr>)"

text \<open>
  The loop of \<^verbatim>\<open>crate::initialize\<close> from \<^verbatim>\<open>device_number\<close> on. \<^verbatim>\<open>module\<close> is a reference
  to the last element of \<^verbatim>\<open>modules\<close>, the one just pushed, and \<^verbatim>\<open>std::find_if\<close> scans all
  of \<^verbatim>\<open>modules\<close>.
\<close>

function initialize_loop :: "'dev pci \<Rightarrow> nat \<Rightarrow> 'dev crate \<Rightarrow> failure + 'dev crate" where
  "initialize_loop pci device_number cr =
     (if device_number < num_modules cr then
        let cr1 = cr\<lparr>modules := modules cr @ [module_new pci]\<rparr>;
            found = fst (pci_find_module pci device_number (device (last (modules cr1))));
            module' = (last (modules cr1))
                \<lparr>device := snd (pci_find_module pci device_number (device (last (modules cr1))))\<rparr>;
            cr2 = cr1\<lparr>modules := butlast (modules cr1) @ [module']\<rparr>
        in if \<not> found then Inr cr2
           else (case find (\<lambda>m. pci_bus pci (device m) = pci_bus pci (device module')
                              \<and> pci_slot pci (device m) = pci_slot pci (device module'))
                        (modules cr2) of
                   Some mi \<Rightarrow>
                     Inl (Runtime_error
                           (''duplicate Pixie16 module found (found '' @
                            nat_to_string (length (modules cr2)) @ '' of '' @
                            nat_to_string (num_modules cr2) @ '')''))
                 | None \<Rightarrow> initialize_loop pci (device_number + 1) cr2)
      else Inr cr)"
  by pat_completeness auto
termination
  by (relation "measure (\<lambda>(pci, device_number, cr). num_modules cr - device_number)") auto

declare initialize_loop.simps [simp del]

definition initialize :: "'dev pci \<Rightarrow> 'dev crate \<Rightarrow> failure + 'dev crate" where
  "initialize pci cr =
     (case initialize_loop pci 0 cr of
        Inl e \<Rightarrow> Inl e
      | Inr cr' \<Rightarrow>
          if length (modules cr') \<noteq> num_modules cr'
          then Inl (Runtime_error
                     (''Pixie16 module(s) not found (found '' @
                      nat_to_string (length (modules cr')) @ '' of '' @
                      nat_to_string (num_modules cr') @ '')''))
          else Inr cr')"

text \<open>Building a crate and initialising it.\<close>

definition crate_new_initialize :: "'dev pci \<Rightarrow> nat \<Rightarrow> failure + 'dev crate" where
  "crate_new_initialize pci n =
     (case crate_new n of Inl e \<Rightarrow> Inl e | Inr cr \<Rightarrow> initialize pci cr)"

text \<open>A bus on which \<^verbatim>\<open>pci_find_module\<close> finds no device and leaves the device as it is.\<close>

definition no_device :: "nat \<Rightarrow> 'dev \<Rightarrow> bool \<times> 'dev" where
  "no_device device_number dev = (False, dev)"

section \<open>The list-mode worker of the command-line tool\<close>

text \<open>
  Modelled from the spec: the module class is not among the sources. The worker uses of
  its module the operations \<^verbatim>\<open>start_listmode\<close>, \<^verbatim>\<open>read_list_mode\<close> (the words read from
  the FIFO, appended to the cleared vector \<^verbatim>\<open>lm\<close>), \<^verbatim>\<open>run_end\<close> and the run statistics;
  they are parameters over a module state \<open>'m\<close>, taken to return normally.
\<close>

record run_stats =
  hw_overflows :: nat
  overflows :: nat
  in' :: nat
  out' :: nat

record 'm module_ops =
  start_listmode :: "'m \<Rightarrow> 'm"
  read_list_mode :: "'m \<Rightarrow> 32 word list \<times> 'm"
  run_end :: "'m \<Rightarrow> 'm"
  run_stats :: "'m \<Rightarrow> run_stats"

text \<open>What a worker has produced: the count \<^verbatim>\<open>total\<close> and the words written to its file.\<close>

record worker_vars =
  total :: nat
  written :: "32 word list"

text \<open>One read of the FIFO: a read that returns words adds them to the file and the total.\<close>

definition read_and_write :: "'m module_ops \<Rightarrow> 'm \<times> worker_vars \<Rightarrow> bool \<times> 'm \<times> worker_vars" where
  "read_and_write ops s =
     (case s of (m, w) \<Rightarrow>
        case read_list_mode ops m of (lm, m') \<Rightarrow>
          if length lm > 0
          then (True, m', w\<lparr>total := total w + length lm, written := written w @ lm\<rparr>)
          else (False, m', w))"

text \<open>
  The polling loop runs while the clock is before the deadline; the clock is not
  modelled, the number of rounds the loop makes is a parameter. A round that reads
  nothing waits for the poll period.
\<close>

fun poll_loop :: "'m module_ops \<Rightarrow> nat \<Rightarrow> 'm \<times> worker_vars \<Rightarrow> 'm \<times> worker_vars" where
  "poll_loop ops 0 s = s"
| "poll_loop ops (Suc rounds) s = poll_loop ops rounds (snd (read_and_write ops s))"

text \<open>The end of a run-task worker: \<^verbatim>\<open>run_end\<close> and the final read of residual words.\<close>

definition final_drain :: "'m module_ops \<Rightarrow> 'm \<times> worker_vars \<Rightarrow> 'm \<times> worker_vars" where
  "final_drain ops s = (case s of (m, w) \<Rightarrow> snd (read_and_write ops (run_end ops m, w)))"

text \<open>
  \<^verbatim>\<open>list_save_worker::worker\<close>. \<open>opened\<close> tells whether the output file could be opened
  (the message ends with the file name and the system's error text, left out here).
\<close>

definition worker ::
  "'m module_ops \<Rightarrow> bool \<Rightarrow> bool \<Rightarrow> nat \<Rightarrow> 'm \<Rightarrow> failure + 'm \<times> worker_vars" where
  "worker ops opened run_task rounds module' =
     (if \<not> opened then Inl (Runtime_error ''list mode file open: '')
      else
        let m1 = (if run_task then start_listmode ops module' else module');
            s = poll_loop ops rounds (m1, \<lparr>total = 0, written = []\<rparr>)
        in if run_task then
             let s' = final_drain ops s;
                 stats = run_stats ops (fst s')
             in if hw_overflows stats \<noteq> 0
                then Inl (Runtime_error ''list mode: EXT FIFO overflow (check workflow config)'')
                else if overflows stats \<noteq> 0
                then Inl (Runtime_error ''list mode: data FIFO overflow (check buffer sizes)'')
                else if in' stats \<noteq> out' stats
                then Inl (Runtime_error ''list mode: data left in data FIFO'')
                else Inr s'
           else Inr s)"

text \<open>
  The thread of \<^verbatim>\<open>module_threads\<close> around a worker: what it puts into the promise. A
  \<^verbatim>\<open>xia::pixie::error::error\<close> gives its code as the value, every other exception is
  stored as an exception, which \<^verbatim>\<open>future.get()\<close> throws again in the supervisor.
\<close>

datatype promise = Value code | Exception failure

definition worker_thread :: "failure + 'a \<Rightarrow> promise" where
  "worker_thread r =
     (case r of
        Inr x \<Rightarrow> Value success
      | Inl (Error type msg) \<Rightarrow> Value type
      | Inl e \<Rightarrow> Exception e)"

text \<open>The code of the error a call fails with, if it fails with a coded error.\<close>

definition thrown_code :: "failure + 'a \<Rightarrow> code option" where
  "thrown_code r = (case r of Inl (Error type msg) \<Rightarrow> Some type | _ \<Rightarrow> None)"

section \<open>Results on the error codes\<close>











section \<open>Results on the pool\<close>

lemma length_create_buffers: "length (create_buffers n sz bufs) = n + length bufs"
  by (induction n arbitrary: bufs) simp_all

lemma pool_requests_count:
  "pool.count' p = length (pool.buffers p) \<Longrightarrow> k \<le> pool.count' p \<Longrightarrow>
   \<exists>hs p'. pool_requests k p = Inr (hs, p') \<and> hs = take k (pool.buffers p)
        \<and> pool.buffers p' = drop k (pool.buffers p)
        \<and> pool.count' p' = pool.count' p - k
        \<and> pool.number p' = pool.number p \<and> pool.size' p' = pool.size' p"
proof (induction k arbitrary: p)
  case 0
  then show ?case by simp
next
  case (Suc k)
  then obtain buf rest where bufs: "pool.buffers p = buf # rest"
    by (cases "pool.buffers p") auto
  let ?p1 = "p\<lparr>pool.count' := pool.count' p - 1, pool.buffers := rest\<rparr>"
  from Suc.prems bufs have req: "pool_request p = Inr (buf, ?p1)"
    by (simp add: pool_request_def pool_empty_def)
  from Suc.prems bufs have "pool.count' ?p1 = length (pool.buffers ?p1)" "k \<le> pool.count' ?p1"
    by simp_all
  from Suc.IH [OF this] req bufs show ?case by auto
qed

lemma pool_create_init:
  "pool_create n c pool_init =
     Inr \<lparr>pool.number = n, pool.size' = c, pool.count' = n, pool.buffers = create_buffers n c []\<rparr>"
  by (simp add: pool_create_def pool_init_def)

lemma pool_requests_Suc:
  "pool_requests (Suc k) p =
     (case pool_requests k p of
        Inl e \<Rightarrow> Inl e
      | Inr (hs, p') \<Rightarrow>
          (case pool_request p' of Inl e \<Rightarrow> Inl e | Inr (h, p'') \<Rightarrow> Inr (hs @ [h], p'')))"
proof (induction k arbitrary: p)
  case 0
  then show ?case by (simp split: sum.splits prod.splits)
next
  case (Suc k)
  show ?case
  proof (cases "pool_request p")
    case (Inl e)
    then show ?thesis by simp
  next
    case (Inr hp)
    obtain h p1 where hp: "hp = (h, p1)" by (cases hp)
    have "pool_requests (Suc (Suc k)) p =
        (case pool_requests (Suc k) p1 of Inl e \<Rightarrow> Inl e | Inr (hs, p'') \<Rightarrow> Inr (h # hs, p''))"
      using Inr hp by simp
    also have "\<dots> = (case pool_requests (Suc k) p of
        Inl e \<Rightarrow> Inl e
      | Inr (hs, p') \<Rightarrow>
          (case pool_request p' of Inl e \<Rightarrow> Inl e | Inr (h, p'') \<Rightarrow> Inr (hs @ [h], p'')))"
      unfolding Suc.IH [of p1] using Inr hp
      by (simp split: sum.splits prod.splits)
    finally show ?thesis .
  qed
qed

lemma pool_release_request:
  "pool.buffers (pool_release h q) = buffer_clear h # pool.buffers q
   \<and> data (buffer_clear h) = []
   \<and> pool.count' (pool_release h q) = pool.count' q + 1
   \<and> pool_request (pool_release h q) = Inr (buffer_clear h, q)"
  by (simp add: pool_release_def pool_request_def pool_empty_def buffer_clear_def)

lemma pool_requests_created:
  assumes k: "k \<le> N"
    and p0: "p0 = \<lparr>pool.number = N, pool.size' = C, pool.count' = N,
                  pool.buffers = create_buffers N C []\<rparr>"
  shows "\<exists>hs p. pool_requests k p0 = Inr (hs, p) \<and> length hs = k
            \<and> pool.count' p = N - k
            \<and> (k < N \<longrightarrow> (\<exists>h p'. pool_request p = Inr (h, p')
                            \<and> pool.count' p' = pool.count' p - 1
                            \<and> pool_requests (Suc k) p0 = Inr (hs @ [h], p')))
            \<and> (k = N \<longrightarrow> (\<exists>msg. pool_request p = Inl (Error buffer_pool_empty msg))
                  \<and> (\<exists>msg. pool_requests (Suc N) p0 = Inl (Error buffer_pool_empty msg)))"
proof -
  have inv: "pool.count' p0 = length (pool.buffers p0)"
    by (simp add: p0 length_create_buffers)
  from k have "k \<le> pool.count' p0" by (simp add: p0)
  from pool_requests_count [OF inv this]
  obtain hs p where r: "pool_requests k p0 = Inr (hs, p)"
    and hs: "hs = take k (pool.buffers p0)"
    and bufs: "pool.buffers p = drop k (pool.buffers p0)"
    and cnt: "pool.count' p = N - k"
    by (auto simp: p0)
  from hs k have len: "length hs = k" by (simp add: p0 length_create_buffers)
  have more: "\<exists>h p'. pool_request p = Inr (h, p') \<and> pool.count' p' = pool.count' p - 1
                \<and> pool_requests (Suc k) p0 = Inr (hs @ [h], p')" if "k < N"
  proof -
    from that bufs have "pool.buffers p \<noteq> []"
      by (simp add: p0 length_create_buffers)
    then obtain h rest where "pool.buffers p = h # rest"
      by (cases "pool.buffers p") simp_all
    with that cnt have "pool_request p
        = Inr (h, p\<lparr>pool.count' := pool.count' p - 1, pool.buffers := rest\<rparr>)"
      by (simp add: pool_request_def pool_empty_def)
    with r show ?thesis by (simp add: pool_requests_Suc del: pool_requests.simps)
  qed
  have last: "(\<exists>msg. pool_request p = Inl (Error buffer_pool_empty msg))
                \<and> (\<exists>msg. pool_requests (Suc N) p0 = Inl (Error buffer_pool_empty msg))"
    if "k = N"
  proof -
    from that cnt have "pool.count' p = 0" by simp
    then have e: "pool_request p = Inl (Error buffer_pool_empty ''no buffers avaliable'')"
      by (simp add: pool_request_def pool_empty_def)
    with r that
    have "pool_requests (Suc N) p0 = Inl (Error buffer_pool_empty ''no buffers avaliable'')"
      by (simp add: pool_requests_Suc del: pool_requests.simps)
    with e show ?thesis by simp
  qed
  from r len cnt more last show ?thesis by blast
qed

text \<open>
  C6. In a pool created with \<open>N\<close> buffers, \<open>k \<le> N\<close> requests in a row all succeed and leave
  \<open>N - k\<close> buffers available, each request taking one; after \<open>N\<close> requests the next one
  throws \<^verbatim>\<open>buffer_pool_empty\<close>. Releasing a handle \<open>h\<close> puts its buffer, cleared, at the
  front of the free list of any pool and adds one to the count, and the request that
  follows succeeds and hands that buffer out.
\<close>

theorem pool_request_release:
  "(\<exists>p0. pool_create N C pool_init = Inr p0 \<and> pool.count' p0 = N
     \<and> (\<forall>k \<le> N. \<exists>hs p. pool_requests k p0 = Inr (hs, p) \<and> length hs = k
            \<and> pool.count' p = N - k
            \<and> (k < N \<longrightarrow> (\<exists>h p'. pool_request p = Inr (h, p')
                            \<and> pool.count' p' = pool.count' p - 1
                            \<and> pool_requests (Suc k) p0 = Inr (hs @ [h], p')))
            \<and> (k = N \<longrightarrow> (\<exists>msg. pool_request p = Inl (Error buffer_pool_empty msg))
                  \<and> (\<exists>msg. pool_requests (Suc N) p0
                              = Inl (Error buffer_pool_empty msg)))))
   \<and> pool.buffers (pool_release h q) = buffer_clear h # pool.buffers q
   \<and> data (buffer_clear h) = []
   \<and> pool.count' (pool_release h q) = pool.count' q + 1
   \<and> pool_request (pool_release h q) = Inr (buffer_clear h, q)"
proof (intro conjI)
  show "\<exists>p0. pool_create N C pool_init = Inr p0 \<and> pool.count' p0 = N
     \<and> (\<forall>k \<le> N. \<exists>hs p. pool_requests k p0 = Inr (hs, p) \<and> length hs = k
            \<and> pool.count' p = N - k
            \<and> (k < N \<longrightarrow> (\<exists>h p'. pool_request p = Inr (h, p')
                            \<and> pool.count' p' = pool.count' p - 1
                            \<and> pool_requests (Suc k) p0 = Inr (hs @ [h], p')))
            \<and> (k = N \<longrightarrow> (\<exists>msg. pool_request p = Inl (Error buffer_pool_empty msg))
                  \<and> (\<exists>msg. pool_requests (Suc N) p0
                              = Inl (Error buffer_pool_empty msg))))"
    using pool_create_init [of N C] pool_requests_created [OF _ refl, of _ N C]
    by (intro exI [of _ "\<lparr>pool.number = N, pool.size' = C, pool.count' = N,
                          pool.buffers = create_buffers N C []\<rparr>"]) simp
qed (simp_all add: pool_release_request)

theorem pool_request_release_witness:
  "pool_create 3 1024 pool_init
     = Inr \<lparr>pool.number = 3, pool.size' = 1024, pool.count' = 3,
            pool.buffers = replicate 3 \<lparr>data = [], capacity = 1024\<rparr>\<rparr>
   \<and> pool_requests 3 \<lparr>pool.number = 3, pool.size' = 1024, pool.count' = 3,
                       pool.buffers = replicate 3 \<lparr>data = [], capacity = 1024\<rparr>\<rparr>
       = Inr (replicate 3 \<lparr>data = [], capacity = 1024\<rparr>,
              \<lparr>pool.number = 3, pool.size' = 1024, pool.count' = 0, pool.buffers = []\<rparr>)
   \<and> pool_requests 4 \<lparr>pool.number = 3, pool.size' = 1024, pool.count' = 3,
                       pool.buffers = replicate 3 \<lparr>data = [], capacity = 1024\<rparr>\<rparr>
       = Inl (Error buffer_pool_empty ''no buffers avaliable'')
   \<and> pool_request (pool_release \<lparr>data = [7, 8], capacity = 1024\<rparr>
                     \<lparr>pool.number = 3, pool.size' = 1024, pool.count' = 0, pool.buffers = []\<rparr>)
       = Inr (\<lparr>data = [], capacity = 1024\<rparr>,
              \<lparr>pool.number = 3, pool.size' = 1024, pool.count' = 0, pool.buffers = []\<rparr>)"
  using pool_request_release [of 3 1024 "\<lparr>data = [7, 8], capacity = 1024\<rparr>"
      "\<lparr>pool.number = 3, pool.size' = 1024, pool.count' = 0, pool.buffers = []\<rparr>"]
  by (simp add: pool_create_def pool_init_def pool_request_def pool_release_def pool_empty_def
      buffer_clear_def buffer_reserve_def buffer_new_def eval_nat_numeral)

section \<open>Results on the queue\<close>

lemma compact_move_suffix:
  "compact_move to_move to post h = (n, post', h') \<Longrightarrow> suffix post' post"
proof (induction post arbitrary: to_move h n post' h')
  case Nil
  then show ?case by simp
next
  case (Cons from' rest)
  then show ?case
    by (auto simp: Let_def suffix_Cons split: if_splits prod.splits)
qed

lemma compact_move_none:
  assumes mv: "compact_move to_move to (from' # rest) h = (0, post', h')"
    and spare: "to_move = capacity (h to) - buffer_size (h to)" and pos: "0 < to_move"
    and diff: "to \<noteq> from'"
  shows "post' = from' # rest" and "full (h' to)"
    and "\<And>x. x \<noteq> to \<Longrightarrow> x \<noteq> from' \<Longrightarrow> h' x = h x"
proof -
  from mv pos have small: "\<not> buffer_size (h from') \<le> to_move"
    by (auto simp: Let_def split: prod.splits)
  with mv pos have
    h': "h' = (h(to := buffer_append (take to_move (data (h from'))) (h to)))
           (from' := buffer_erase_front to_move
              ((h(to := buffer_append (take to_move (data (h from'))) (h to))) from'))"
    and post': "post' = from' # rest"
    by (simp_all add: Let_def)
  from post' show "post' = from' # rest" .
  from h' diff have "h' to = buffer_append (take to_move (data (h from'))) (h to)"
    by simp
  with small spare pos show "full (h' to)"
    by (simp add: full_def buffer_append_def buffer_size_def)
  fix x assume "x \<noteq> to" "x \<noteq> from'"
  with h' show "h' x = h x" by simp
qed

lemma compact_pass_no_rerun:
  "compact_pass pre todo h = (False, n, hs, h') \<Longrightarrow> distinct (pre @ todo) \<Longrightarrow>
   \<forall>x \<in> set pre. full (h x) \<Longrightarrow>
   n = 0 \<and> hs = pre @ todo \<and> (\<forall>x \<in> set (butlast hs). full (h' x))"
proof (induction pre todo h arbitrary: n hs h' rule: compact_pass.induct)
  case (1 pre h)
  then show ?case
    by (auto dest: in_set_butlastD)
next
  case (2 pre to post h)
  show ?case
  proof (cases "capacity (h to) - buffer_size (h to) > 0")
    case False
    then have "full (h to)" by (simp add: full_def)
    with "2.prems" have "\<forall>x \<in> set (pre @ [to]). full (h x)" by simp
    moreover from False "2.prems" have "compact_pass (pre @ [to]) post h = (False, n, hs, h')"
      by simp
    moreover from "2.prems" have "distinct ((pre @ [to]) @ post)" by simp
    ultimately show ?thesis using "2.IH"(2) [OF False] by simp
  next
    case True
    obtain k post' h1 where
      mv: "compact_move (capacity (h to) - buffer_size (h to)) to post h = (k, post', h1)"
      by (cases "compact_move (capacity (h to) - buffer_size (h to)) to post h") auto
    from True mv "2.prems"(1) have k0: "\<not> k > 0"
      by (auto split: if_splits)
    with True mv "2.prems"(1) have rec: "compact_pass (pre @ [to]) post' h1 = (False, n, hs, h')"
      by simp
    show ?thesis
    proof (cases post)
      case Nil
      with mv have "post' = []" "h1 = h" by simp_all
      with rec have "n = 0" "hs = pre @ [to]" "h' = h" by auto
      with "2.prems"(3) Nil show ?thesis by simp
    next
      case (Cons from' rest)
      from "2.prems"(2) Cons have diff: "to \<noteq> from'" by auto
      from mv k0 Cons have mv0:
        "compact_move (capacity (h to) - buffer_size (h to)) to (from' # rest) h = (0, post', h1)"
        by simp
      note facts = compact_move_none [OF mv0 refl True diff]
      have post': "post' = post" using facts(1) Cons by simp
      have "\<forall>x \<in> set (pre @ [to]). full (h1 x)"
      proof
        fix x assume x: "x \<in> set (pre @ [to])"
        show "full (h1 x)"
        proof (cases "x = to")
          case True
          with facts(2) show ?thesis by simp
        next
          case False
          with x have xpre: "x \<in> set pre" by simp
          with "2.prems"(2) Cons have "x \<noteq> from'" by auto
          from facts(3) [OF False this] xpre "2.prems"(3) show ?thesis by simp
        qed
      qed
      moreover from "2.prems"(2) post' have "distinct ((pre @ [to]) @ post')" by simp
      ultimately have "n = 0 \<and> hs = (pre @ [to]) @ post'
          \<and> (\<forall>x \<in> set (butlast hs). full (h' x))"
        using "2.IH"(1) [OF True mv [symmetric] refl k0 rec] by blast
      with post' show ?thesis by simp
    qed
  qed
qed

lemma compact_pass_fixed:
  "\<forall>x \<in> set (butlast todo). full (h x) \<Longrightarrow>
   compact_pass pre todo h = (False, 0, pre @ todo, h)"
proof (induction todo arbitrary: pre)
  case Nil
  then show ?case by simp
next
  case (Cons to post)
  show ?case
  proof (cases post)
    case Nil
    then show ?thesis by simp
  next
    case (Cons from' rest)
    with Cons.prems have "full (h to)" and "\<forall>x \<in> set (butlast post). full (h x)"
      by simp_all
    with Cons.IH [of "pre @ [to]"] show ?thesis by (simp add: full_def)
  qed
qed

lemma compact_pass_distinct:
  "compact_pass pre todo h = (rerun, n, hs, h') \<Longrightarrow> distinct (pre @ todo) \<Longrightarrow> distinct hs"
proof (induction pre todo h arbitrary: rerun n hs h' rule: compact_pass.induct)
  case (1 pre h)
  then show ?case by simp
next
  case (2 pre to post h)
  show ?case
  proof (cases "capacity (h to) - buffer_size (h to) > 0")
    case False
    with "2.prems" "2.IH"(2) [OF False, of rerun n hs h'] show ?thesis by simp
  next
    case True
    obtain k post' h1 where
      mv: "compact_move (capacity (h to) - buffer_size (h to)) to post h = (k, post', h1)"
      by (cases "compact_move (capacity (h to) - buffer_size (h to)) to post h") auto
    from compact_move_suffix [OF mv] obtain ks where post: "post = ks @ post'"
      by (auto simp: suffix_def)
    with "2.prems"(2) have d: "distinct ((pre @ [to]) @ post')" by auto
    show ?thesis
    proof (cases "k > 0")
      case kpos: True
      with True mv "2.prems"(1) have "hs = pre @ to # post'" by simp
      with d show ?thesis by simp
    next
      case k0: False
      with True mv "2.prems"(1) have "compact_pass (pre @ [to]) post' h1 = (rerun, n, hs, h')"
        by simp
      from "2.IH"(1) [OF True mv [symmetric] refl k0 this d] show ?thesis .
    qed
  qed
qed

lemma compact_full_but_last:
  "distinct (handles q) \<Longrightarrow>
   \<forall>x \<in> set (butlast (handles (compact q))). full (heap (compact q) x)"
proof (induction q rule: compact.induct)
  case (1 q)
  obtain rerun n hs h' where pass: "compact_pass [] (handles q) (heap q) = (rerun, n, hs, h')"
    by (cases "compact_pass [] (handles q) (heap q)") auto
  show ?case
  proof (cases rerun)
    case True
    from compact_pass_distinct [OF pass] "1.prems" have "distinct hs" by simp
    with "1.IH" [OF pass [symmetric] refl refl refl True] pass True show ?thesis
      by (simp add: compact.simps [of q])
  next
    case False
    with pass "1.prems" compact_pass_no_rerun [of "[]" "handles q" "heap q" n hs h']
    show ?thesis
      by (simp add: compact.simps [of q])
  qed
qed

lemma compact_size: "size_q (compact q) = size_q q"
proof (induction q rule: compact.induct)
  case (1 q)
  obtain rerun n hs h' where pass: "compact_pass [] (handles q) (heap q) = (rerun, n, hs, h')"
    by (cases "compact_pass [] (handles q) (heap q)") auto
  show ?case
  proof (cases rerun)
    case True
    from "1.IH" [OF pass [symmetric] refl refl refl True] pass True show ?thesis
      by (simp add: compact.simps [of q])
  next
    case False
    with pass show ?thesis
      by (simp add: compact.simps [of q])
  qed
qed

lemma compact_fixed:
  "\<forall>x \<in> set (butlast (handles q)). full (heap q x) \<Longrightarrow> compact q = q"
  using compact_pass_fixed [of "handles q" "heap q" "[]"] by (simp add: compact.simps [of q])

text \<open>
  C7, as stated, fails on a queue that holds one handle twice. \<^verbatim>\<open>push\<close> accepts any
  handle, so a buffer of the words 1, 2 with capacity 3 can be pushed twice. The first
  \<^verbatim>\<open>compact\<close> moves the buffer's first word to its own end and leaves 2, 1; the second
  leaves 1, 2 again.
\<close>

theorem compact_twice_on_shared_handle:
  "heap (compact \<lparr>handles = [0, 0], heap = heap_init(0 := \<lparr>data = [1, 2], capacity = 3\<rparr>),
                 size_q = 4, count_q = 2\<rparr>) 0
     = \<lparr>data = [2, 1], capacity = 3\<rparr>
   \<and> heap (compact (compact
              \<lparr>handles = [0, 0], heap = heap_init(0 := \<lparr>data = [1, 2], capacity = 3\<rparr>),
               size_q = 4, count_q = 2\<rparr>)) 0
     = \<lparr>data = [1, 2], capacity = 3\<rparr>
   \<and> compact (compact
         \<lparr>handles = [0, 0], heap = heap_init(0 := \<lparr>data = [1, 2], capacity = 3\<rparr>),
          size_q = 4, count_q = 2\<rparr>)
     \<noteq> compact \<lparr>handles = [0, 0], heap = heap_init(0 := \<lparr>data = [1, 2], capacity = 3\<rparr>),
                 size_q = 4, count_q = 2\<rparr>"
proof -
  let ?q = "\<lparr>handles = [0, 0], heap = heap_init(0 := \<lparr>data = [1, 2], capacity = 3\<rparr>),
            size_q = 4, count_q = 2\<rparr>"
  let ?q1 = "\<lparr>handles = [0, 0], heap = heap_init(0 := \<lparr>data = [2, 1], capacity = 3\<rparr>),
             size_q = 4, count_q = 2\<rparr>"
  have first: "compact ?q = ?q1"
    by (simp add: compact.simps buffer_size_def buffer_append_def
        buffer_erase_front_def eval_nat_numeral)
  have second: "compact ?q1 = ?q"
    by (simp add: compact.simps buffer_size_def buffer_append_def
        buffer_erase_front_def eval_nat_numeral)
  have "heap ?q 0 \<noteq> heap ?q1 0" by simp
  then have "?q \<noteq> ?q1" by metis
  with first second show ?thesis by simp
qed

text \<open>
  C7, amended. For every queue state \<^verbatim>\<open>compact()\<close> leaves \<^verbatim>\<open>size()\<close> as it was. For
  every queue whose handles point to different buffers a second \<^verbatim>\<open>compact()\<close> right
  after the first changes nothing: the handles, the buffers, the size and the count stay
  as the first run left them.
\<close>

theorem compact_idempotent:
  "size_q (compact q) = size_q q
   \<and> (distinct (handles q) \<longrightarrow> compact (compact q) = compact q)"
  using compact_size [of q] compact_fixed [OF compact_full_but_last [of q]]
  by simp

theorem compact_idempotent_witness:
  "distinct [0, 1, 2 :: nat]
   \<and> compact \<lparr>handles = [0, 1, 2],
               heap = heap_init(0 := \<lparr>data = [0], capacity = 4\<rparr>,
                                1 := \<lparr>data = [10, 11], capacity = 4\<rparr>,
                                2 := \<lparr>data = [20, 21, 22], capacity = 4\<rparr>),
               size_q = 6, count_q = 3\<rparr>
       = \<lparr>handles = [0, 2],
          heap = heap_init(0 := \<lparr>data = [0, 10, 11, 20], capacity = 4\<rparr>,
                           1 := \<lparr>data = [], capacity = 4\<rparr>,
                           2 := \<lparr>data = [21, 22], capacity = 4\<rparr>),
          size_q = 6, count_q = 2\<rparr>
   \<and> compact (compact \<lparr>handles = [0, 1, 2],
               heap = heap_init(0 := \<lparr>data = [0], capacity = 4\<rparr>,
                                1 := \<lparr>data = [10, 11], capacity = 4\<rparr>,
                                2 := \<lparr>data = [20, 21, 22], capacity = 4\<rparr>),
               size_q = 6, count_q = 3\<rparr>)
       = compact \<lparr>handles = [0, 1, 2],
               heap = heap_init(0 := \<lparr>data = [0], capacity = 4\<rparr>,
                                1 := \<lparr>data = [10, 11], capacity = 4\<rparr>,
                                2 := \<lparr>data = [20, 21, 22], capacity = 4\<rparr>),
               size_q = 6, count_q = 3\<rparr>"
proof -
  let ?q = "\<lparr>handles = [0, 1, 2],
               heap = heap_init(0 := \<lparr>data = [0], capacity = 4\<rparr>,
                                1 := \<lparr>data = [10, 11], capacity = 4\<rparr>,
                                2 := \<lparr>data = [20, 21, 22], capacity = 4\<rparr>),
               size_q = 6, count_q = 3\<rparr>"
  have d: "distinct (handles ?q)" by simp
  have "compact ?q = \<lparr>handles = [0, 2],
          heap = heap_init(0 := \<lparr>data = [0, 10, 11, 20], capacity = 4\<rparr>,
                           1 := \<lparr>data = [], capacity = 4\<rparr>,
                           2 := \<lparr>data = [21, 22], capacity = 4\<rparr>),
          size_q = 6, count_q = 2\<rparr>"
    by (simp add: compact.simps buffer_size_def buffer_append_def buffer_erase_front_def
        buffer_clear_def size_t_minus_def fun_upd_twist eval_nat_numeral)
  with d compact_idempotent [of ?q] show ?thesis by simp
qed

lemma copy_two_full_one_partial:
  assumes b1: "buffer_size b1 = 100" and b2: "buffer_size b2 = 50"
    and b3: "buffer_size b3 = 30" and dst: "length dst = 130"
  shows "copy dst 130 (push b3 (push b2 (push b1 queue_init))) =
     (Inr (data b1 @ take 7 (data b2) @ merge_bytes 2 (data b2 ! 7) (dst ! 107) # drop 108 dst,
           [buffer_clear b1, b2\<lparr>data := drop 30 (data b2), capacity := max (capacity b2) 20\<rparr>]),
      \<lparr>buffers = [b3], size' = 80, count' = 2\<rparr>)"
proof -
  have l1: "length (data b1) = 100" and l2: "length (data b2) = 50"
    using b1 b2 by (simp_all add: buffer_size_def)
  have q: "push b3 (push b2 (push b1 queue_init))
      = \<lparr>buffers = [b1, b2, b3], size' = 180, count' = 3\<rparr>"
    using b1 b2 b3 by (simp add: push_def queue_init_def)
  have m1: "memcpy dst 0 (data b1) (buffer_size b1 * 4) = Some (data b1 @ drop 100 dst)"
    using l1 dst b1 by (simp add: memcpy_def)
  have m2: "memcpy (data b1 @ drop 100 dst) 100 (data b2) 30
      = Some (data b1 @ take 7 (data b2) @ merge_bytes 2 (data b2 ! 7) (dst ! 107) # drop 108 dst)"
  proof -
    have d: "drop 107 dst = dst ! 107 # drop 108 dst"
      using Cons_nth_drop_Suc [of 107 dst] dst by simp
    have n: "(data b1 @ drop 100 dst) ! 107 = dst ! 107"
      using l1 dst by (simp add: nth_append)
    have u: "(data b1 @ take 7 (data b2) @ dst ! 107 # drop 108 dst)[107 := x]
        = data b1 @ take 7 (data b2) @ x # drop 108 dst" for x
      using l1 l2 by (simp add: list_update_append)
    show ?thesis
      using l1 l2 dst by (simp add: memcpy_def Let_def d n u)
  qed
  show ?thesis
    unfolding copy_def copy_unprotected_def q
    using m1 m2 b1 b2 b3 l2
    by (simp add: buffer_resize_def move_to_front_def buffer_size_def)
qed

lemma push_invariant: "queue_invariant q \<Longrightarrow> queue_invariant (push buf q)"
  by (simp add: queue_invariant_def queue_size_def queue_count_def push_def)

lemma pop_invariant: "queue_invariant q \<Longrightarrow> pop q = Inr (buf, q') \<Longrightarrow> queue_invariant q'"
  by (auto simp: queue_invariant_def queue_size_def queue_count_def pop_def split: list.splits)

text \<open>
  C1. The claim is that \<^verbatim>\<open>copy(to_ptr, count)\<close> moves exactly the next \<open>count\<close> words to
  the destination, keeps the leftover of a partly drained buffer at that buffer's front,
  and that after pushing buffers of 100, 50 and 30 words \<^verbatim>\<open>copy(to_ptr, 130)\<close> leaves 50
  words in the queue. The code does otherwise when the drain ends inside a buffer. With
  the three buffers filled with the sentinels \<open>0x11111111\<close>, \<open>0x22222222\<close> and
  \<open>0x33333333\<close> and a destination of 130 zero words: only 30 bytes of the second buffer
  reach the destination (7 words and half a word), the second buffer, cut to its last 20
  words, is erased from the queue with the first, \<^verbatim>\<open>size()\<close> is 80 and \<^verbatim>\<open>count()\<close> is 2
  while the queue holds one buffer of 30 words.
\<close>

theorem copy_130_of_100_50_30:
  "copy (replicate 130 0) 130
     (push \<lparr>data = replicate 30 0x33333333, capacity = 30\<rparr>
       (push \<lparr>data = replicate 50 0x22222222, capacity = 50\<rparr>
         (push \<lparr>data = replicate 100 0x11111111, capacity = 100\<rparr> queue_init)))
   = (Inr (replicate 100 0x11111111 @ replicate 7 0x22222222 @ 0x00002222 # replicate 22 0,
           [\<lparr>data = [], capacity = 100\<rparr>,
            \<lparr>data = replicate 20 0x22222222, capacity = 50\<rparr>]),
      \<lparr>buffers = [\<lparr>data = replicate 30 0x33333333, capacity = 30\<rparr>],
       size' = 80, count' = 2\<rparr>)"
  using copy_two_full_one_partial
    [of "\<lparr>data = replicate 100 0x11111111, capacity = 100\<rparr>"
        "\<lparr>data = replicate 50 0x22222222, capacity = 50\<rparr>"
        "\<lparr>data = replicate 30 0x33333333, capacity = 30\<rparr>"
        "replicate 130 0"]
  by (simp add: buffer_size_def buffer_clear_def merge_bytes_def mask_eq_exp_minus_1)

text \<open>
  C2. The claim is that after any sequence of push, pop, copy, compact and flush
  \<^verbatim>\<open>size()\<close> is the sum of the sizes of the handles held and \<^verbatim>\<open>count()\<close> their number.
  \<^verbatim>\<open>flush\<close> clears the handles and leaves both counters as they were, and a \<^verbatim>\<open>copy\<close>
  that ends inside a buffer erases that buffer without counting it out: after a push of
  one word and a flush the queue is empty with size 1 and count 1, and after a push of
  two words and a copy of one word it is empty with size 2 and count 1.
\<close>

theorem flush_and_copy_break_queue_invariant:
  "queue_invariant queue_init
   \<and> queue_invariant (push \<lparr>data = [7], capacity = 1\<rparr> queue_init)
   \<and> flush (push \<lparr>data = [7], capacity = 1\<rparr> queue_init)
       = \<lparr>buffers = [], size' = 1, count' = 1\<rparr>
   \<and> \<not> queue_invariant (flush (push \<lparr>data = [7], capacity = 1\<rparr> queue_init))
   \<and> snd (copy [0] 1 (push \<lparr>data = [7, 8], capacity = 2\<rparr> queue_init))
       = \<lparr>buffers = [], size' = 2, count' = 1\<rparr>
   \<and> \<not> queue_invariant (snd (copy [0] 1 (push \<lparr>data = [7, 8], capacity = 2\<rparr> queue_init)))"
  by (simp add: queue_invariant_def queue_size_def queue_count_def queue_init_def push_def
      flush_def buffer_size_def copy_def copy_unprotected_def memcpy_def move_to_front_def
      buffer_resize_def merge_bytes_def mask_eq_exp_minus_1)

section \<open>Results on the backplane\<close>

lemma popcount_set:
  "n < length flags \<Longrightarrow> \<not> flags ! n \<Longrightarrow> popcount (flags[n := True]) = Suc (popcount flags)"
  unfolding popcount_def
proof (induction flags arbitrary: n)
  case Nil
  then show ?case by simp
next
  case (Cons b flags)
  then show ?case by (cases n) simp_all
qed

lemma popcount_clear:
  "n < length flags \<Longrightarrow> flags ! n \<Longrightarrow> Suc (popcount (flags[n := False])) = popcount flags"
  unfolding popcount_def
proof (induction flags arbitrary: n)
  case Nil
  then show ?case by simp
next
  case (Cons b flags)
  then show ?case by (cases n) simp_all
qed

lemma popcount_le_length: "popcount flags \<le> length flags"
  by (simp add: popcount_def)

lemma sync_wait_step:
  assumes inv: "sync_invariant bp" and n: "number m < length (sync_waiters bp)"
  shows "\<exists>bp'. sync_wait m v bp = Inr bp' \<and> sync_invariant bp'
           \<and> length (sync_waiters bp') = length (sync_waiters bp)
           \<and> (v = 1 \<and> \<not> sync_waiters bp ! number m \<longrightarrow>
                sync_waits bp' = sync_waits bp + 1
                \<and> sync_waiters bp' = (sync_waiters bp)[number m := True])
           \<and> (v \<noteq> 1 \<and> sync_waiters bp ! number m \<longrightarrow>
                sync_waits bp' = sync_waits bp - 1
                \<and> sync_waiters bp' = (sync_waiters bp)[number m := False])
           \<and> ((v = 1) = sync_waiters bp ! number m \<longrightarrow> bp' = bp)"
proof (cases "(v = 1) = sync_waiters bp ! number m")
  case True
  with inv n show ?thesis by (simp add: sync_wait_def)
next
  case False
  show ?thesis
  proof (cases "v = 1")
    case True
    with False have off: "\<not> sync_waiters bp ! number m" by simp
    have pc: "popcount ((sync_waiters bp)[number m := True]) = Suc (popcount (sync_waiters bp))"
      using popcount_set [OF n off] .
    have le: "popcount ((sync_waiters bp)[number m := True]) \<le> length (sync_waiters bp)"
      using popcount_le_length [of "(sync_waiters bp)[number m := True]"] by simp
    from inv n True off pc le show ?thesis
      by (simp add: sync_wait_def sync_invariant_def)
  next
    case v: False
    with False have on: "sync_waiters bp ! number m" by simp
    have pc: "Suc (popcount ((sync_waiters bp)[number m := False])) = popcount (sync_waiters bp)"
      using popcount_clear [OF n on] .
    from inv n v on pc show ?thesis
      by (simp add: sync_wait_def sync_invariant_def)
  qed
qed

lemma sync_wait_calls_invariant:
  "sync_invariant bp \<Longrightarrow> \<forall>(m, v) \<in> set calls. number m < length (sync_waiters bp) \<Longrightarrow>
   \<exists>bp'. sync_wait_calls calls bp = Inr bp' \<and> sync_invariant bp'
         \<and> length (sync_waiters bp') = length (sync_waiters bp)"
proof (induction calls arbitrary: bp)
  case Nil
  then show ?case by simp
next
  case (Cons c calls)
  obtain m v where c: "c = (m, v)" by (cases c)
  from Cons.prems c have n: "number m < length (sync_waiters bp)" by simp
  from sync_wait_step [OF Cons.prems(1) n, of v]
  obtain bp1 where s: "sync_wait m v bp = Inr bp1" and i: "sync_invariant bp1"
    and l: "length (sync_waiters bp1) = length (sync_waiters bp)" by blast
  from Cons.prems(2) l have "\<forall>(m, v) \<in> set calls. number m < length (sync_waiters bp1)"
    by simp
  from Cons.IH [OF i this] l s c show ?case by simp
qed

lemma sync_wait_out_of_range:
  assumes n: "number m < length (sync_waiters bp)"
    and change: "(v = 1) \<noteq> sync_waiters bp ! number m"
    and out: "(if v = 1 then sync_waits bp + 1 else sync_waits bp - 1) < 0
              \<or> (if v = 1 then sync_waits bp + 1 else sync_waits bp - 1)
                  > int (length (sync_waiters bp))"
  shows "\<exists>msg. sync_wait m v bp = Inl (Error internal_failure msg)"
  using assms by (auto simp: sync_wait_def Let_def)

text \<open>
  C3. For each of the three roles and every module \<open>m\<close>: \<^verbatim>\<open>request(m)\<close> succeeds exactly
  when the leader is \<^verbatim>\<open>released\<close> (-1), and then the leader is \<open>m\<close>'s number; from then on a
  request by a module with another number fails and changes nothing, and so does its
  release; \<^verbatim>\<open>release(m)\<close> succeeds exactly when the leader is \<open>m\<close>'s number and returns the
  role to \<^verbatim>\<open>released\<close>, after which a request succeeds again.
\<close>

theorem role_request_release:
  "fst (request m r) = (leader r = released)
   \<and> (leader r = released \<longrightarrow> snd (request m r) = r\<lparr>leader := int (number m)\<rparr>)
   \<and> (leader r \<noteq> released \<longrightarrow> request m r = (False, r))
   \<and> (leader r = released \<and> number m' \<noteq> number m \<longrightarrow>
        request m' (snd (request m r)) = (False, snd (request m r))
        \<and> release m' (snd (request m r)) = (False, snd (request m r)))
   \<and> fst (release m r) = (leader r = int (number m))
   \<and> (leader r = int (number m) \<longrightarrow> snd (release m r) = r\<lparr>leader := released\<rparr>)
   \<and> (leader r \<noteq> int (number m) \<longrightarrow> release m r = (False, r))
   \<and> (leader r = released \<longrightarrow>
        release m (snd (request m r)) = (True, r)
        \<and> fst (request m' (snd (release m (snd (request m r))))))"
  by (auto simp: request_def release_def compare_exchange_strong_def released_def)

theorem role_request_release_witness:
  "fst (request \<lparr>number = 0\<rparr> (run (backplane_init 13)))
   \<and> request \<lparr>number = 1\<rparr> (snd (request \<lparr>number = 0\<rparr> (run (backplane_init 13))))
       = (False, \<lparr>leader = 0, label = ''run''\<rparr>)
   \<and> release \<lparr>number = 1\<rparr> (snd (request \<lparr>number = 0\<rparr> (run (backplane_init 13))))
       = (False, \<lparr>leader = 0, label = ''run''\<rparr>)
   \<and> release \<lparr>number = 0\<rparr> (snd (request \<lparr>number = 0\<rparr> (run (backplane_init 13))))
       = (True, run (backplane_init 13))"
  using role_request_release [of "\<lparr>number = 0\<rparr>" "run (backplane_init 13)" "\<lparr>number = 1\<rparr>"]
  by (simp add: backplane_init_def role_init_def released_def request_def
      compare_exchange_strong_def)
lemma popcount_replicate_False: "popcount (replicate n False) = 0"
  by (simp add: popcount_def)

lemma sync_invariant_init: "sync_invariant (backplane_init max_slots)"
  by (simp add: sync_invariant_def backplane_init_def popcount_replicate_False)

lemma sync_wait_text: "sublist ''sync wait''
  ''sync wait mode enabled and not all modules in the sync wait state''"
  by (rule prefix_imp_sublist) simp

lemma sync_wait_valid_cases:
  "sync_wait_valid bp =
     (if sync_waits bp = 0 \<or> sync_waits bp = int (length (sync_waiters bp)) then Inr ()
      else Inl (Error module_invalid_operation
                 ''sync wait mode enabled and not all modules in the sync wait state''))"
  by (simp add: sync_wait_valid_def)

lemma sync_wait_valid_returns:
  "(sync_wait_valid bp = Inr ())
     = (sync_waits bp = 0 \<or> sync_waits bp = int (length (sync_waiters bp)))"
  by (simp add: sync_wait_valid_cases)

lemma sync_wait_valid_one_of_two:
  assumes slots: "2 \<le> max_slots"
  shows "\<exists>bp1. sync_wait \<lparr>number = 0\<rparr> 1 (backplane_init max_slots) = Inr bp1
               \<and> sync_wait \<lparr>number = 1\<rparr> 0 bp1 = Inr bp1
               \<and> (\<exists>msg. sync_wait_valid bp1 = Inl (Error module_invalid_operation msg)
                         \<and> sublist ''sync wait'' msg)"
proof -
  define bp1 where "bp1 = (backplane_init max_slots)
    \<lparr>sync_waits := 1, sync_waiters := (replicate max_slots False)[0 := True]\<rparr>"
  from slots have "sync_wait \<lparr>number = 0\<rparr> 1 (backplane_init max_slots) = Inr bp1"
    by (simp add: sync_wait_def backplane_init_def bp1_def)
  moreover from slots have "sync_wait \<lparr>number = 1\<rparr> 0 bp1 = Inr bp1"
    by (simp add: sync_wait_def backplane_init_def bp1_def)
  moreover from slots have "sync_wait_valid bp1 = Inl (Error module_invalid_operation
      ''sync wait mode enabled and not all modules in the sync wait state'')"
    by (simp add: sync_wait_valid_cases backplane_init_def bp1_def)
  ultimately show ?thesis
    using sync_wait_text by blast
qed

text \<open>
  C4. The claim is that \<^verbatim>\<open>sync_wait_valid()\<close> returns normally exactly when no module
  waits or all modules of the crate do. The code compares the counter with the size of
  \<^verbatim>\<open>sync_waiters\<close>, the number of slots a crate can have, not with the number of modules
  in the crate. In a crate of 13 slots that holds the two modules 0 and 1, after both
  have set \<^verbatim>\<open>SYNCH_WAIT\<close> to 1 the counter is 2, both flags are set, and the check throws
  \<^verbatim>\<open>module_invalid_operation\<close>, "not all modules in the sync wait state". (With only
  module 0 waiting it throws as the claim says, and with none waiting it returns.)
\<close>

theorem sync_wait_valid_all_modules_waiting:
  "sync_wait_calls [(\<lparr>number = 0\<rparr>, 1), (\<lparr>number = 1\<rparr>, 1)] (backplane_init 13)
     = Inr ((backplane_init 13)
             \<lparr>sync_waits := 2, sync_waiters := [True, True] @ replicate 11 False\<rparr>)
   \<and> sync_wait_valid
        ((backplane_init 13)
           \<lparr>sync_waits := 2, sync_waiters := [True, True] @ replicate 11 False\<rparr>)
       = Inl (Error module_invalid_operation
               ''sync wait mode enabled and not all modules in the sync wait state'')
   \<and> sync_wait_calls [(\<lparr>number = 0\<rparr>, 1), (\<lparr>number = 1\<rparr>, 0)] (backplane_init 13)
       = Inr ((backplane_init 13)
               \<lparr>sync_waits := 1, sync_waiters := True # replicate 12 False\<rparr>)
   \<and> sync_wait_valid
        ((backplane_init 13)\<lparr>sync_waits := 1, sync_waiters := True # replicate 12 False\<rparr>)
       = Inl (Error module_invalid_operation
               ''sync wait mode enabled and not all modules in the sync wait state'')
   \<and> sync_wait_valid (backplane_init 13) = Inr ()"
  by (simp add: sync_wait_def sync_wait_valid_def backplane_init_def role_init_def
      eval_nat_numeral)

text \<open>
  C5. From a state that satisfies the invariant (the constructed backplane does), every
  sequence of \<^verbatim>\<open>sync_wait\<close> calls by modules that have a slot returns normally and ends in
  a state that satisfies it: the counter is the number of flags set and lies between 0
  and the number of flags. A call with value 1 by a module that is not waiting adds one to
  the counter and sets its flag, a call with another value by a waiting module subtracts
  one and clears it, and a call that does not change the flag changes nothing. In any
  state, a call that changes the flag and takes the counter outside the range throws
  \<^verbatim>\<open>internal_failure\<close>.
\<close>

theorem sync_wait_invariant:
  "sync_invariant (backplane_init max_slots)
   \<and> (sync_invariant bp \<and> (\<forall>(m, v) \<in> set calls. number m < length (sync_waiters bp)) \<longrightarrow>
        (\<exists>bp'. sync_wait_calls calls bp = Inr bp' \<and> sync_invariant bp'))
   \<and> (sync_invariant bp \<and> number m < length (sync_waiters bp) \<longrightarrow>
        (\<exists>bp'. sync_wait m v bp = Inr bp' \<and> sync_invariant bp'
           \<and> (v = 1 \<and> \<not> sync_waiters bp ! number m \<longrightarrow>
                sync_waits bp' = sync_waits bp + 1
                \<and> sync_waiters bp' = (sync_waiters bp)[number m := True])
           \<and> (v \<noteq> 1 \<and> sync_waiters bp ! number m \<longrightarrow>
                sync_waits bp' = sync_waits bp - 1
                \<and> sync_waiters bp' = (sync_waiters bp)[number m := False])
           \<and> ((v = 1) = sync_waiters bp ! number m \<longrightarrow> bp' = bp)))
   \<and> (number m < length (sync_waiters bad) \<and> (v = 1) \<noteq> sync_waiters bad ! number m
        \<and> ((if v = 1 then sync_waits bad + 1 else sync_waits bad - 1) < 0
            \<or> (if v = 1 then sync_waits bad + 1 else sync_waits bad - 1)
                > int (length (sync_waiters bad))) \<longrightarrow>
        (\<exists>msg. sync_wait m v bad = Inl (Error internal_failure msg)))"
proof (intro conjI impI)
  show "sync_invariant (backplane_init max_slots)"
    by (rule sync_invariant_init)
next
  assume "sync_invariant bp \<and> (\<forall>(m, v) \<in> set calls. number m < length (sync_waiters bp))"
  then show "\<exists>bp'. sync_wait_calls calls bp = Inr bp' \<and> sync_invariant bp'"
    using sync_wait_calls_invariant [of bp calls] by blast
next
  assume "sync_invariant bp \<and> number m < length (sync_waiters bp)"
  then show "\<exists>bp'. sync_wait m v bp = Inr bp' \<and> sync_invariant bp'
           \<and> (v = 1 \<and> \<not> sync_waiters bp ! number m \<longrightarrow>
                sync_waits bp' = sync_waits bp + 1
                \<and> sync_waiters bp' = (sync_waiters bp)[number m := True])
           \<and> (v \<noteq> 1 \<and> sync_waiters bp ! number m \<longrightarrow>
                sync_waits bp' = sync_waits bp - 1
                \<and> sync_waiters bp' = (sync_waiters bp)[number m := False])
           \<and> ((v = 1) = sync_waiters bp ! number m \<longrightarrow> bp' = bp)"
    using sync_wait_step [of bp m v] by blast
next
  assume "number m < length (sync_waiters bad) \<and> (v = 1) \<noteq> sync_waiters bad ! number m
        \<and> ((if v = 1 then sync_waits bad + 1 else sync_waits bad - 1) < 0
            \<or> (if v = 1 then sync_waits bad + 1 else sync_waits bad - 1)
                > int (length (sync_waiters bad)))"
  then show "\<exists>msg. sync_wait m v bad = Inl (Error internal_failure msg)"
    using sync_wait_out_of_range [of m bad v] by blast
qed

theorem sync_wait_invariant_witness:
  "sync_invariant (backplane_init 3)
   \<and> sync_wait_calls [(\<lparr>number = 0\<rparr>, 1), (\<lparr>number = 2\<rparr>, 1), (\<lparr>number = 0\<rparr>, 0),
                      (\<lparr>number = 1\<rparr>, 0)] (backplane_init 3)
       = Inr ((backplane_init 3)\<lparr>sync_waits := 1, sync_waiters := [False, False, True]\<rparr>)
   \<and> sync_invariant ((backplane_init 3)\<lparr>sync_waits := 1, sync_waiters := [False, False, True]\<rparr>)
   \<and> sync_wait \<lparr>number = 1\<rparr> 1 (backplane_init 3)
       = Inr ((backplane_init 3)\<lparr>sync_waits := 1, sync_waiters := [False, True, False]\<rparr>)
   \<and> (\<exists>msg. sync_wait \<lparr>number = 0\<rparr> 0
               ((backplane_init 1)\<lparr>sync_waits := 0, sync_waiters := [True]\<rparr>)
             = Inl (Error internal_failure msg))"
  using sync_wait_invariant [of 3 "backplane_init 3"
      "[(\<lparr>number = 0\<rparr>, 1), (\<lparr>number = 2\<rparr>, 1), (\<lparr>number = 0\<rparr>, 0), (\<lparr>number = 1\<rparr>, 0)]"
      "\<lparr>number = 0\<rparr>" 0 "(backplane_init 1)\<lparr>sync_waits := 0, sync_waiters := [True]\<rparr>"]
  by (simp add: sync_invariant_def popcount_def sync_wait_def backplane_init_def role_init_def
      numeral_3_eq_3)

section \<open>Results on the legacy crate\<close>

lemma find_last_matches:
  "P x \<Longrightarrow> find P (xs @ [x]) \<noteq> None"
  by (auto simp: find_None_iff)

lemma initialize_loop_found:
  assumes d: "device_number < num_modules cr"
    and found: "fst (pci_find_module pci device_number (device (module_new pci)))"
  shows "initialize_loop pci device_number cr =
     Inl (Runtime_error
           (''duplicate Pixie16 module found (found '' @
            nat_to_string (Suc (length (modules cr))) @ '' of '' @
            nat_to_string (num_modules cr) @ '')''))"
proof -
  let ?m = "(module_new pci)
      \<lparr>device := snd (pci_find_module pci device_number (device (module_new pci)))\<rparr>"
  let ?P = "\<lambda>m. pci_bus pci (device m) = pci_bus pci (device ?m)
      \<and> pci_slot pci (device m) = pci_slot pci (device ?m)"
  have "find ?P (modules cr @ [?m]) \<noteq> None"
    by (rule find_last_matches) simp
  then obtain mi where "find ?P (modules cr @ [?m]) = Some mi" by auto
  with d found show ?thesis
    by (simp add: initialize_loop.simps [of pci device_number cr] Let_def)
qed

lemma initialize_loop_not_found:
  assumes d: "device_number < num_modules cr"
    and found: "\<not> fst (pci_find_module pci device_number (device (module_new pci)))"
  shows "initialize_loop pci device_number cr =
     Inr (cr\<lparr>modules := modules cr @ [(module_new pci)
       \<lparr>device := snd (pci_find_module pci device_number (device (module_new pci)))\<rparr>]\<rparr>)"
  using assms by (simp add: initialize_loop.simps [of pci device_number cr] Let_def)

lemma initialize_loop_done:
  "\<not> device_number < num_modules cr \<Longrightarrow> initialize_loop pci device_number cr = Inr cr"
  by (simp add: initialize_loop.simps [of pci device_number cr])

text \<open>
  What \<^verbatim>\<open>initialize\<close> does, whatever \<^verbatim>\<open>num_modules\<close> is and whatever modules the crate
  holds already: the loop never gets past device 0.
\<close>

lemma initialize_cases:
  "initialize pci cr =
     (if num_modules cr = 0
      then (if modules cr = [] then Inr cr
            else Inl (Runtime_error
                       (''Pixie16 module(s) not found (found '' @
                        nat_to_string (length (modules cr)) @ '' of '' @
                        nat_to_string (num_modules cr) @ '')'')))
      else if fst (pci_find_module pci 0 (device (module_new pci)))
      then Inl (Runtime_error
                 (''duplicate Pixie16 module found (found '' @
                  nat_to_string (Suc (length (modules cr))) @ '' of '' @
                  nat_to_string (num_modules cr) @ '')''))
      else if Suc (length (modules cr)) = num_modules cr
      then Inr (cr\<lparr>modules := modules cr @ [(module_new pci)
             \<lparr>device := snd (pci_find_module pci 0 (device (module_new pci)))\<rparr>]\<rparr>)
      else Inl (Runtime_error
                 (''Pixie16 module(s) not found (found '' @
                  nat_to_string (Suc (length (modules cr))) @ '' of '' @
                  nat_to_string (num_modules cr) @ '')'')))"
proof (cases "num_modules cr = 0")
  case True
  then show ?thesis
    by (simp add: initialize_def initialize_loop_done)
next
  case False
  then have d: "0 < num_modules cr" by simp
  show ?thesis
  proof (cases "fst (pci_find_module pci 0 (device (module_new pci)))")
    case True
    with False initialize_loop_found [OF d True] show ?thesis
      by (simp add: initialize_def)
  next
    case found: False
    with False initialize_loop_not_found [OF d found] show ?thesis
      by (simp add: initialize_def)
  qed
qed

text \<open>
  C10, as stated, fails in its last sentence: \<^verbatim>\<open>initialize\<close> also returns normally on a
  crate with \<open>num_modules = 1\<close> and no modules yet when \<^verbatim>\<open>pci_find_module\<close> finds no
  device. The loop pushes a default module, breaks, and the size check finds one module
  of one.
\<close>

theorem initialize_returns_with_one_module:
  "initialize
     \<lparr>module_new = \<lparr>device = (0 :: int, 0 :: int)\<rparr>, pci_find_module = no_device,
      pci_bus = fst, pci_slot = snd\<rparr>
     \<lparr>num_modules = 1, modules = []\<rparr>
   = Inr \<lparr>num_modules = 1, modules = [\<lparr>device = (0, 0)\<rparr>]\<rparr>"
  by (simp add: initialize_cases no_device_def)

text \<open>
  C10, amended. In the legacy crate the constructor throws for every \<open>num_modules\<close>
  other than 0. In \<^verbatim>\<open>initialize\<close>, whenever \<^verbatim>\<open>pci_find_module\<close> succeeds for a device the
  loop reaches, the scan for a duplicate covers the module just added, finds it, and
  \<^verbatim>\<open>initialize\<close> throws the error "duplicate Pixie16 module found". \<^verbatim>\<open>initialize\<close>
  returns normally exactly in two cases: \<open>num_modules\<close> is 0 and the crate holds no
  module (nothing is changed), or \<open>num_modules\<close> is not 0, \<^verbatim>\<open>pci_find_module\<close> fails
  for device 0, and the modules with the default module pushed for device 0 are
  \<open>num_modules\<close> many (for a crate with no modules yet: \<open>num_modules = 1\<close>). A crate
  built by the constructor has \<open>num_modules = 0\<close>, and initialising it returns with no
  module.
\<close>

theorem legacy_crate_initialize:
  "(n \<noteq> 0 \<longrightarrow> (crate_new n :: failure + 'dev crate)
                 = Inl (Runtime_error ''crate already initialised''))
   \<and> (crate_new 0 :: failure + 'dev crate) = Inr \<lparr>num_modules = 0, modules = []\<rparr>
   \<and> (device_number < num_modules cr
        \<and> fst (pci_find_module pci device_number (device (module_new pci))) \<longrightarrow>
        (\<exists>msg. initialize_loop pci device_number cr = Inl (Runtime_error msg)
               \<and> prefix ''duplicate Pixie16 module found'' msg))
   \<and> (0 < num_modules cr \<and> fst (pci_find_module pci 0 (device (module_new pci))) \<longrightarrow>
        (\<exists>msg. initialize pci cr = Inl (Runtime_error msg)
               \<and> prefix ''duplicate Pixie16 module found'' msg))
   \<and> (initialize pci cr = Inr cr') =
        (num_modules cr = 0 \<and> modules cr = [] \<and> cr' = cr
         \<or> 0 < num_modules cr
           \<and> \<not> fst (pci_find_module pci 0 (device (module_new pci)))
           \<and> Suc (length (modules cr)) = num_modules cr
           \<and> cr' = cr\<lparr>modules := modules cr @ [(module_new pci)
                \<lparr>device := snd (pci_find_module pci 0 (device (module_new pci)))\<rparr>]\<rparr>)
   \<and> (crate_new_initialize pci k = Inr cr' \<longrightarrow> k = 0 \<and> modules cr' = [])
   \<and> crate_new_initialize pci 0 = Inr \<lparr>num_modules = 0, modules = []\<rparr>"
proof (intro conjI impI)
  assume "n \<noteq> 0"
  then show "(crate_new n :: failure + 'dev crate)
      = Inl (Runtime_error ''crate already initialised'')"
    by (simp add: crate_new_def)
next
  show "(crate_new 0 :: failure + 'dev crate) = Inr \<lparr>num_modules = 0, modules = []\<rparr>"
    by (simp add: crate_new_def)
next
  assume "device_number < num_modules cr
        \<and> fst (pci_find_module pci device_number (device (module_new pci)))"
  then show "\<exists>msg. initialize_loop pci device_number cr = Inl (Runtime_error msg)
               \<and> prefix ''duplicate Pixie16 module found'' msg"
    using initialize_loop_found [of device_number cr pci] by simp
next
  assume "0 < num_modules cr \<and> fst (pci_find_module pci 0 (device (module_new pci)))"
  then show "\<exists>msg. initialize pci cr = Inl (Runtime_error msg)
               \<and> prefix ''duplicate Pixie16 module found'' msg"
    using initialize_loop_found [of 0 cr pci] by (simp add: initialize_def)
next
  show "(initialize pci cr = Inr cr') =
        (num_modules cr = 0 \<and> modules cr = [] \<and> cr' = cr
         \<or> 0 < num_modules cr
           \<and> \<not> fst (pci_find_module pci 0 (device (module_new pci)))
           \<and> Suc (length (modules cr)) = num_modules cr
           \<and> cr' = cr\<lparr>modules := modules cr @ [(module_new pci)
                \<lparr>device := snd (pci_find_module pci 0 (device (module_new pci)))\<rparr>]\<rparr>)"
    by (auto simp: initialize_cases)
next
  assume r: "crate_new_initialize pci k = Inr cr'"
  then have n: "k = 0"
    by (cases "k = 0") (simp_all add: crate_new_initialize_def crate_new_def)
  with r show "k = 0" by simp
  from r n show "modules cr' = []"
    by (auto simp: crate_new_initialize_def crate_new_def initialize_def initialize_loop_done)
next
  show "crate_new_initialize pci 0 = Inr \<lparr>num_modules = 0, modules = []\<rparr>"
    by (simp add: crate_new_initialize_def crate_new_def initialize_def initialize_loop_done)
qed

theorem legacy_crate_initialize_witness:
  "(crate_new 1 :: failure + (int \<times> int) crate)
     = Inl (Runtime_error ''crate already initialised'')
   \<and> initialize
        \<lparr>module_new = \<lparr>device = (0, 0)\<rparr>,
         pci_find_module = (\<lambda>n d. (True, (1, int n + 2))),
         pci_bus = fst, pci_slot = snd\<rparr>
        \<lparr>num_modules = 2, modules = []\<rparr>
       = Inl (Runtime_error ''duplicate Pixie16 module found (found 1 of 2)'')
   \<and> initialize
        \<lparr>module_new = \<lparr>device = (0, 0)\<rparr>,
         pci_find_module = (\<lambda>n d. (True, (1, int n + 2))),
         pci_bus = fst, pci_slot = snd\<rparr>
        \<lparr>num_modules = 0, modules = []\<rparr>
       = Inr \<lparr>num_modules = 0, modules = []\<rparr>
   \<and> crate_new_initialize
        \<lparr>module_new = \<lparr>device = (0, 0)\<rparr>,
         pci_find_module = (\<lambda>n d. (True, (1, int n + 2))),
         pci_bus = fst, pci_slot = snd\<rparr> 0
       = Inr \<lparr>num_modules = 0, modules = []\<rparr>"
  using legacy_crate_initialize
    [of 1 0 "\<lparr>num_modules = 2, modules = []\<rparr>"
        "\<lparr>module_new = \<lparr>device = (0, 0)\<rparr>,
          pci_find_module = (\<lambda>n d. (True, (1, int n + 2))),
          pci_bus = fst, pci_slot = snd\<rparr>"
        "\<lparr>num_modules = 0, modules = []\<rparr>" 0]
    legacy_crate_initialize
    [of 1 0 "\<lparr>num_modules = 0, modules = []\<rparr>"
        "\<lparr>module_new = \<lparr>device = (0, 0)\<rparr>,
          pci_find_module = (\<lambda>n d. (True, (1, int n + 2))),
          pci_bus = fst, pci_slot = snd\<rparr>"
        "\<lparr>num_modules = 0, modules = []\<rparr>" 0]
  by (simp add: crate_new_def initialize_cases nat_to_string.simps [of "Suc 0"]
      nat_to_string.simps [of 2])

section \<open>Results on the list-mode worker\<close>

text \<open>
  C8, as stated, fails: with a hardware overflow in the run statistics the worker does
  fail after its final drain, but with a \<^verbatim>\<open>std::runtime_error\<close>, which carries no error
  code; the promise of its thread holds that exception and not
  \<^verbatim>\<open>module_invalid_operation\<close>. The module here is its run statistics, with an empty FIFO.
\<close>

theorem worker_overflow_is_runtime_error:
  "worker \<lparr>start_listmode = id, read_list_mode = Pair [],
           run_end = id, run_stats = id\<rparr>
      True True 0 \<lparr>hw_overflows = 1, overflows = 0, in' = 0, out' = 0\<rparr>
     = Inl (Runtime_error ''list mode: EXT FIFO overflow (check workflow config)'')
   \<and> thrown_code
        (worker \<lparr>start_listmode = id, read_list_mode = Pair [],
                 run_end = id, run_stats = id\<rparr>
           True True 0 \<lparr>hw_overflows = 1, overflows = 0, in' = 0, out' = 0\<rparr>)
       \<noteq> Some module_invalid_operation
   \<and> worker_thread
        (worker \<lparr>start_listmode = id, read_list_mode = Pair [],
                 run_end = id, run_stats = id\<rparr>
           True True 0 \<lparr>hw_overflows = 1, overflows = 0, in' = 0, out' = 0\<rparr>)
       = Exception (Runtime_error ''list mode: EXT FIFO overflow (check workflow config)'')"
  by (simp add: worker_def final_drain_def read_and_write_def thrown_code_def
      worker_thread_def)

text \<open>
  C8, amended. A run-task worker whose file opened, on exit after the deadline, calls
  \<^verbatim>\<open>run_end\<close>, reads the FIFO once more and adds the residual words to its file and
  its total, and then checks the run statistics of its module in this order: if
  \<open>hw_overflows \<noteq> 0\<close> it fails with the message "list mode: EXT FIFO overflow (check
  workflow config)", else if \<open>overflows \<noteq> 0\<close> with "list mode: data FIFO overflow
  (check buffer sizes)", else if \<open>in \<noteq> out\<close> with "list mode: data left in data
  FIFO". Each failure is a \<^verbatim>\<open>std::runtime_error\<close>, which has no error code and is stored
  in the promise of the worker's thread as an exception; with all three checks passed
  the worker returns and the promise holds \<^verbatim>\<open>success\<close>.
\<close>

theorem worker_final_check:
  "(case poll_loop ops rounds (start_listmode ops m, \<lparr>total = 0, written = []\<rparr>) of
      (m2, w) \<Rightarrow>
        (case read_list_mode ops (run_end ops m2) of
           (lm, m4) \<Rightarrow>
             let stats = run_stats ops m4;
                 r = worker ops True True rounds m
             in (hw_overflows stats \<noteq> 0 \<longrightarrow>
                   r = Inl (Runtime_error
                             ''list mode: EXT FIFO overflow (check workflow config)''))
                \<and> (hw_overflows stats = 0 \<and> overflows stats \<noteq> 0 \<longrightarrow>
                     r = Inl (Runtime_error
                               ''list mode: data FIFO overflow (check buffer sizes)''))
                \<and> (hw_overflows stats = 0 \<and> overflows stats = 0
                     \<and> in' stats \<noteq> out' stats \<longrightarrow>
                     r = Inl (Runtime_error ''list mode: data left in data FIFO''))
                \<and> (hw_overflows stats = 0 \<and> overflows stats = 0
                     \<and> in' stats = out' stats \<longrightarrow>
                     r = Inr (m4, w\<lparr>total := total w + length lm,
                                     written := written w @ lm\<rparr>)
                     \<and> worker_thread r = Value success)
                \<and> (hw_overflows stats \<noteq> 0 \<or> overflows stats \<noteq> 0
                     \<or> in' stats \<noteq> out' stats \<longrightarrow>
                     (\<exists>msg. r = Inl (Runtime_error msg)
                            \<and> worker_thread r = Exception (Runtime_error msg))
                     \<and> thrown_code r = None)))"
proof -
  obtain m2 w where poll:
    "poll_loop ops rounds (start_listmode ops m, \<lparr>total = 0, written = []\<rparr>) = (m2, w)"
    by (cases "poll_loop ops rounds (start_listmode ops m, \<lparr>total = 0, written = []\<rparr>)")
  obtain lm m4 where drain: "read_list_mode ops (run_end ops m2) = (lm, m4)"
    by (cases "read_list_mode ops (run_end ops m2)")
  have final: "final_drain ops (m2, w)
      = (m4, w\<lparr>total := total w + length lm, written := written w @ lm\<rparr>)"
    using drain by (cases "lm = []") (simp_all add: final_drain_def read_and_write_def)
  show ?thesis
    by (simp add: poll drain final worker_def Let_def worker_thread_def thrown_code_def)
qed

text \<open>
  For the witness the module is its FIFO, the words that arrive when the run ends, and
  its run statistics.
\<close>

theorem worker_final_check_witness:
  "worker \<lparr>start_listmode = id,
           read_list_mode = (\<lambda>(fifo, late, st). (fifo, ([], late, st))),
           run_end = (\<lambda>(fifo, late, st). (fifo @ late, [], st)),
           run_stats = (\<lambda>(fifo, late, st). st)\<rparr>
      True True 1 ([1, 2], [3], \<lparr>hw_overflows = 0, overflows = 0, in' = 3, out' = 3\<rparr>)
     = Inr (([], [], \<lparr>hw_overflows = 0, overflows = 0, in' = 3, out' = 3\<rparr>),
            \<lparr>total = 3, written = [1, 2, 3]\<rparr>)
   \<and> worker \<lparr>start_listmode = id,
             read_list_mode = (\<lambda>(fifo, late, st). (fifo, ([], late, st))),
             run_end = (\<lambda>(fifo, late, st). (fifo @ late, [], st)),
             run_stats = (\<lambda>(fifo, late, st). st)\<rparr>
        True True 1 ([1, 2], [3], \<lparr>hw_overflows = 1, overflows = 1, in' = 4, out' = 3\<rparr>)
       = Inl (Runtime_error ''list mode: EXT FIFO overflow (check workflow config)'')
   \<and> worker \<lparr>start_listmode = id,
             read_list_mode = (\<lambda>(fifo, late, st). (fifo, ([], late, st))),
             run_end = (\<lambda>(fifo, late, st). (fifo @ late, [], st)),
             run_stats = (\<lambda>(fifo, late, st). st)\<rparr>
        True True 1 ([1, 2], [3], \<lparr>hw_overflows = 0, overflows = 1, in' = 4, out' = 3\<rparr>)
       = Inl (Runtime_error ''list mode: data FIFO overflow (check buffer sizes)'')
   \<and> worker \<lparr>start_listmode = id,
             read_list_mode = (\<lambda>(fifo, late, st). (fifo, ([], late, st))),
             run_end = (\<lambda>(fifo, late, st). (fifo @ late, [], st)),
             run_stats = (\<lambda>(fifo, late, st). st)\<rparr>
        True True 1 ([1, 2], [3], \<lparr>hw_overflows = 0, overflows = 0, in' = 4, out' = 3\<rparr>)
       = Inl (Runtime_error ''list mode: data left in data FIFO'')"
proof -
  let ?ops = "\<lparr>start_listmode = id,
           read_list_mode = (\<lambda>(fifo, late, st). (fifo, ([], late, st))),
           run_end = (\<lambda>(fifo, late, st). (fifo @ late, [], st)),
           run_stats = (\<lambda>(fifo, late, st). st)\<rparr>
        :: (32 word list \<times> 32 word list \<times> run_stats) module_ops"
  show ?thesis
    using
      worker_final_check [of ?ops 1
        "([1, 2], [3], \<lparr>hw_overflows = 0, overflows = 0, in' = 3, out' = 3\<rparr>)"]
      worker_final_check [of ?ops 1
        "([1, 2], [3], \<lparr>hw_overflows = 1, overflows = 1, in' = 4, out' = 3\<rparr>)"]
      worker_final_check [of ?ops 1
        "([1, 2], [3], \<lparr>hw_overflows = 0, overflows = 1, in' = 4, out' = 3\<rparr>)"]
      worker_final_check [of ?ops 1
        "([1, 2], [3], \<lparr>hw_overflows = 0, overflows = 0, in' = 4, out' = 3\<rparr>)"]
    by (simp add: worker_def final_drain_def read_and_write_def)
qed

end
